theory Spec2Isabelle
  imports Complex_Main "HOL-Library.Product_Lexorder" "HOL-Library.Multiset"
begin

section \<open>Scholarship portal: the request handlers of server.js\<close>

text \<open>
  The handlers of \<^verbatim>\<open>server.js\<close> are embedded as functions over an explicit store.
  What the handlers call but the repository does not contain (the MySQL store, the
  JSON built-ins, bcrypt, multer) is kept to the little the handlers rely on:
  \<^item> the JavaScript built-ins \<^verbatim>\<open>JSON.parse\<close>, \<^verbatim>\<open>JSON.stringify\<close>, \<^verbatim>\<open>Number\<close> and
    \<^verbatim>\<open>String.prototype.trim\<close>, \<^verbatim>\<open>bcrypt.hash\<close>, the store's LIKE operator (pattern
    first) and the store's comparison of a reference column with a key are fields of
    an environment record, so every theorem holds for whatever they compute;
  \<^item> every awaited store call may reject: the environment says which calls do;
  \<^item> a table is the list of its rows, a row holds the values its INSERT bound (what a
    column's type makes of a value of another type is the schema's, which the
    repository does not contain, and is not modelled);
  \<^item> a transaction works on a private copy of the tables that COMMIT publishes and
    ROLLBACK discards.
\<close>

subsection \<open>JavaScript values\<close>

text \<open>What \<^verbatim>\<open>JSON.parse\<close> returns. A property read that finds nothing is \<^verbatim>\<open>undefined\<close>,
  modelled as \<open>None\<close>.\<close>

datatype json =
    JNull
  | JBool bool
  | JNum rat
  | JStr string
  | JArr "json list"
  | JObj "(string \<times> json) list"

text \<open>\<^verbatim>\<open>data.k\<close> for a value that is not \<^verbatim>\<open>null\<close>: only an object has own properties
  of the names the handlers read.\<close>

fun get_prop :: "json \<Rightarrow> string \<Rightarrow> json option" where
  "get_prop (JObj kvs) k = map_of kvs k"
| "get_prop v k = None"

text \<open>JavaScript truthiness: \<^verbatim>\<open>undefined\<close>, \<^verbatim>\<open>null\<close>, \<^verbatim>\<open>false\<close>, \<^verbatim>\<open>0\<close> and the empty
  string are falsy, everything else is truthy.\<close>

fun truthy :: "json option \<Rightarrow> bool" where
  "truthy None = False"
| "truthy (Some JNull) = False"
| "truthy (Some (JBool b)) = b"
| "truthy (Some (JNum n)) = (n \<noteq> 0)"
| "truthy (Some (JStr s)) = (s \<noteq> [])"
| "truthy (Some (JArr xs)) = True"
| "truthy (Some (JObj kvs)) = True"

text \<open>\<^verbatim>\<open>v || null\<close>.\<close>

fun or_null :: "json option \<Rightarrow> json" where
  "or_null None = JNull"
| "or_null (Some v) = (if truthy (Some v) then v else JNull)"

text \<open>A JavaScript value as the parameter of a statement: the client library binds
  \<^verbatim>\<open>undefined\<close> as NULL.\<close>

fun param :: "json option \<Rightarrow> json" where
  "param None = JNull"
| "param (Some v) = v"

text \<open>Truthiness of a form field that is a string or absent.\<close>

fun truthy_str :: "string option \<Rightarrow> bool" where
  "truthy_str None = False"
| "truthy_str (Some s) = (s \<noteq> [])"

subsection \<open>The store\<close>

datatype status = Pending | Approved | Rejected

record user =
  user_id :: nat
  name :: string
  email :: string
  password_hash :: string
  age :: "rat option"
  gender :: "string option"
  role :: string

record scheme =
  scheme_id :: nat
  scheme_name :: string
  scholarship_name :: string
  amount :: rat
  academic_year :: string
  scheme_type :: string
  category :: string
  is_international_eligible :: "bool option"
  application_deadline :: "nat option"

record application =
  app_id :: nat
  app_user_id :: json
  app_scheme_id :: json
  amount_applied :: json
  data_json :: string
  app_status :: status
  application_date :: nat

record document =
  doc_id :: nat
  application_id :: nat
  doc_type :: string
  doc_filename :: string

record db =
  users :: "user list"
  schemes :: "scheme list"
  applications :: "application list"
  documents :: "document list"

text \<open>The calls a handler awaits on the pool or on its connection.\<close>

datatype call =
    GetConnection
  | BeginTransaction
  | InsertApplication
  | InsertDocument string
  | Commit
  | Rollback
  | Release
  | SelectUserByEmail
  | InsertUser
  | SelectSchemes
  | SelectPending
  | UpdateStatus

datatype exn = SyntaxError | TypeError | StoreError

record env =
  JSON_parse :: "string \<Rightarrow> json option"
  JSON_stringify :: "json \<Rightarrow> string"
  js_Number :: "json \<Rightarrow> rat option"
  bcrypt_hash :: "string \<Rightarrow> string option"
  js_trim :: "string \<Rightarrow> string"
  sql_like :: "string \<Rightarrow> string \<Rightarrow> bool"
  sql_ref_eq :: "json \<Rightarrow> nat \<Rightarrow> bool"
  rejects :: "call \<Rightarrow> bool"
  now :: nat

text \<open>The pool with the one connection a handler holds: \<open>committed\<close> is what every
  connection reads, \<open>tx\<close> the private copy of the open transaction, \<open>held\<close> the number
  of connections checked out, \<open>calls\<close> the calls made so far, each with whether it
  resolved.\<close>

record store =
  committed :: db
  tx :: "db option"
  held :: nat
  calls :: "(call \<times> bool) list"

definition idle :: "db \<Rightarrow> store" where
  "idle d = \<lparr>committed = d, tx = None, held = 0, calls = []\<rparr>"

definition logged :: "call \<Rightarrow> bool \<Rightarrow> store \<Rightarrow> store" where
  "logged c ok s = s\<lparr>calls := calls s @ [(c, ok)]\<rparr>"

text \<open>The tables a statement on the connection reads and writes: the transaction's
  copy when one is open, the committed tables otherwise (autocommit).\<close>

definition working :: "store \<Rightarrow> db" where
  "working s = (case tx s of Some w \<Rightarrow> w | None \<Rightarrow> committed s)"

definition store_write :: "db \<Rightarrow> store \<Rightarrow> store" where
  "store_write w s = (case tx s of Some v \<Rightarrow> s\<lparr>tx := Some w\<rparr> | None \<Rightarrow> s\<lparr>committed := w\<rparr>)"

text \<open>AUTO_INCREMENT: the new id is above every id of the table.\<close>

definition fresh_id :: "nat list \<Rightarrow> nat" where
  "fresh_id ids = Suc (fold max ids 0)"

text \<open>An awaited call: it resolves with a value or rejects, and changes the store.\<close>

type_synonym 'a io = "store \<Rightarrow> (exn + 'a) \<times> store"

definition await :: "'a io \<Rightarrow> ('a \<Rightarrow> 'b io) \<Rightarrow> 'b io" where
  "await m f s = (case m s of (Inl x, s') \<Rightarrow> (Inl x, s') | (Inr a, s') \<Rightarrow> f a s')"

definition resolve :: "'a \<Rightarrow> 'a io" where
  "resolve a s = (Inr a, s)"

definition throw :: "exn \<Rightarrow> 'a io" where
  "throw x s = (Inl x, s)"

definition getConnection :: "env \<Rightarrow> unit io" where
  "getConnection e s =
     (if rejects e GetConnection then (Inl StoreError, logged GetConnection False s)
      else (Inr (), (logged GetConnection True s)\<lparr>held := Suc (held s)\<rparr>))"

definition beginTransaction :: "env \<Rightarrow> unit io" where
  "beginTransaction e s =
     (if rejects e BeginTransaction then (Inl StoreError, logged BeginTransaction False s)
      else (Inr (), (logged BeginTransaction True s)\<lparr>tx := Some (working s)\<rparr>))"

definition commit :: "env \<Rightarrow> unit io" where
  "commit e s =
     (if rejects e Commit then (Inl StoreError, logged Commit False s)
      else (Inr (), (logged Commit True s)\<lparr>committed := working s, tx := None\<rparr>))"

definition rollback :: "env \<Rightarrow> unit io" where
  "rollback e s =
     (if rejects e Rollback then (Inl StoreError, logged Rollback False s)
      else (Inr (), (logged Rollback True s)\<lparr>tx := None\<rparr>))"

definition release :: "store \<Rightarrow> store" where
  "release s = (logged Release True s)\<lparr>held := held s - 1\<rparr>"

text \<open>\<^verbatim>\<open>INSERT INTO applications (user_id,scheme_id,amount_applied,data_json) VALUES (?,?,?,?)\<close>:
  status and application_date take the column defaults; the result carries the
  insertId.\<close>

definition insert_application :: "env \<Rightarrow> json \<Rightarrow> json \<Rightarrow> json \<Rightarrow> string \<Rightarrow> nat io" where
  "insert_application e uid sid amt js s =
     (if rejects e InsertApplication then (Inl StoreError, logged InsertApplication False s)
      else
        (let w = working s;
             n = fresh_id (map app_id (applications w));
             row = \<lparr>app_id = n, app_user_id = uid, app_scheme_id = sid, amount_applied = amt,
                    data_json = js, app_status = Pending, application_date = now e\<rparr>
         in (Inr n, store_write (w\<lparr>applications := applications w @ [row]\<rparr>)
                      (logged InsertApplication True s))))"

text \<open>\<^verbatim>\<open>INSERT INTO documents (application_id,doc_type,filename) VALUES (?,?,?)\<close>.\<close>

definition insert_document :: "env \<Rightarrow> nat \<Rightarrow> string \<Rightarrow> string \<Rightarrow> unit io" where
  "insert_document e appId ty fname s =
     (if rejects e (InsertDocument ty) then (Inl StoreError, logged (InsertDocument ty) False s)
      else
        (let w = working s;
             row = \<lparr>doc_id = fresh_id (map doc_id (documents w)), application_id = appId,
                    doc_type = ty, doc_filename = fname\<rparr>
         in (Inr (), store_write (w\<lparr>documents := documents w @ [row]\<rparr>)
                       (logged (InsertDocument ty) True s))))"

subsection \<open>Responses\<close>

datatype pending_row = PendingRow
  (row_id: nat) (row_application_date: nat) (row_status: status)
  (applicant_name: "string option") (applicant_email: "string option")
  (row_scheme_name: "string option")

datatype body =
    Error string
  | ApplySuccess nat
  | RegisterSuccess nat
  | Ack string
  | Schemes "scheme list"
  | Applications "pending_row list"

datatype response = Response nat body

text \<open>What the client sees of a handler: the response it sent, or nothing when the
  handler's promise rejected before sending one.\<close>

datatype outcome = Sent response | Uncaught exn

subsection \<open>POST /api/apply\<close>

text \<open>A file as multer's disk storage hands it to the handler: the form field it came
  in, the client's name for it, and the name it was stored under.\<close>

record upload_file =
  fieldname :: string
  originalname :: string
  filename :: string

record uploads =
  photo :: "upload_file list option"
  mark10 :: "upload_file list option"

record apply_request =
  body_data :: "string option"
  files :: "uploads option"

datatype multer_error = LIMIT_UNEXPECTED_FILE string

text \<open>\<^verbatim>\<open>upload.fields([{name:'photo',maxCount:1},{name:'mark10',maxCount:1}])\<close>: the
  files of the form in the order they arrive. A file in a field that is not listed,
  or beyond the field's maxCount, aborts the request; the others are collected in
  \<^verbatim>\<open>req.files\<close> under their field name.\<close>

fun applyUpload_from :: "uploads \<Rightarrow> upload_file list \<Rightarrow> multer_error + uploads" where
  "applyUpload_from u [] = Inr u"
| "applyUpload_from u (f # fs) =
     (if fieldname f = ''photo'' \<and> photo u = None
        then applyUpload_from (u\<lparr>photo := Some [f]\<rparr>) fs
      else if fieldname f = ''mark10'' \<and> mark10 u = None
        then applyUpload_from (u\<lparr>mark10 := Some [f]\<rparr>) fs
      else Inl (LIMIT_UNEXPECTED_FILE (fieldname f)))"

definition applyUpload :: "upload_file list \<Rightarrow> multer_error + uploads" where
  "applyUpload fs = applyUpload_from \<lparr>photo = None, mark10 = None\<rparr> fs"

text \<open>The handler up to \<^verbatim>\<open>pool.getConnection()\<close>:
  \<^verbatim>\<open>const data = req.body.data ? JSON.parse(req.body.data) : {}\<close>,
  \<^verbatim>\<open>const { user_id, scheme_id } = data\<close> (a TypeError when data is null),
  \<^verbatim>\<open>if (!user_id || !scheme_id) return res.status(400)...\<close>.
  \<open>Inl\<close> is a throw, \<open>Inr None\<close> the 400 return, \<open>Inr (Some ...)\<close> goes on.\<close>

definition parse_data :: "env \<Rightarrow> string option \<Rightarrow> exn + json" where
  "parse_data e d =
     (case d of
        None \<Rightarrow> Inr (JObj [])
      | Some s \<Rightarrow>
          (if s = [] then Inr (JObj [])
           else (case JSON_parse e s of None \<Rightarrow> Inl SyntaxError | Some v \<Rightarrow> Inr v)))"

definition missing_reference :: "json \<Rightarrow> bool" where
  "missing_reference data =
     (\<not> (truthy (get_prop data ''user_id'') \<and> truthy (get_prop data ''scheme_id'')))"

definition validate :: "env \<Rightarrow> apply_request \<Rightarrow> exn + json option" where
  "validate e req =
     (case parse_data e (body_data req) of
        Inl x \<Rightarrow> Inl x
      | Inr data \<Rightarrow>
          (if data = JNull then Inl TypeError
           else if missing_reference data then Inr None
           else Inr (Some data)))"

text \<open>\<^verbatim>\<open>const f = req.files.photo[0]; await connection.query('INSERT INTO documents ...',
  [appId, f.fieldname, f.filename])\<close>: reading a property of \<^verbatim>\<open>undefined\<close> throws.\<close>

definition insert_first :: "env \<Rightarrow> nat \<Rightarrow> upload_file list option \<Rightarrow> unit io" where
  "insert_first e appId fs =
     (case fs of
        None \<Rightarrow> resolve ()
      | Some [] \<Rightarrow> throw TypeError
      | Some (f # rest) \<Rightarrow> insert_document e appId (fieldname f) (filename f))"

definition insert_documents :: "env \<Rightarrow> nat \<Rightarrow> uploads option \<Rightarrow> unit io" where
  "insert_documents e appId fs =
     (case fs of
        None \<Rightarrow> resolve ()
      | Some u \<Rightarrow> await (insert_first e appId (photo u)) (\<lambda>_. insert_first e appId (mark10 u)))"

text \<open>The try block from \<^verbatim>\<open>beginTransaction\<close> to \<^verbatim>\<open>commit\<close>.\<close>

definition transaction :: "env \<Rightarrow> apply_request \<Rightarrow> json \<Rightarrow> nat io" where
  "transaction e req data =
     await (beginTransaction e) (\<lambda>_.
     await (insert_application e (param (get_prop data ''user_id'')) (param (get_prop data ''scheme_id''))
              (or_null (get_prop data ''amount_applied'')) (JSON_stringify e data)) (\<lambda>appId.
     await (insert_documents e appId (files req)) (\<lambda>_.
     await (commit e) (\<lambda>_.
     resolve appId))))"

definition server_error :: response where
  "server_error = Response 500 (Error ''Server error'')"

text \<open>The catch block, entered with a connection: \<^verbatim>\<open>await connection.rollback()\<close>, then the
  500 response. When the rollback rejects, the handler ends without a response.\<close>

definition catch_with_connection :: "env \<Rightarrow> store \<Rightarrow> outcome \<times> store" where
  "catch_with_connection e s =
     (case rollback e s of
        (Inl x, s') \<Rightarrow> (Uncaught x, s')
      | (Inr u, s') \<Rightarrow> (Sent server_error, s'))"

text \<open>The whole handler: try, catch, finally. \<^verbatim>\<open>connection\<close> is defined from the moment
  \<^verbatim>\<open>pool.getConnection()\<close> resolved, and only then do catch and finally touch it.\<close>

definition api_apply :: "env \<Rightarrow> apply_request \<Rightarrow> store \<Rightarrow> outcome \<times> store" where
  "api_apply e req s =
     (case validate e req of
        Inl x \<Rightarrow> (Sent server_error, s)
      | Inr None \<Rightarrow> (Sent (Response 400 (Error ''Missing user_id or scheme_id'')), s)
      | Inr (Some data) \<Rightarrow>
          (case getConnection e s of
             (Inl x, s1) \<Rightarrow> (Sent server_error, s1)
           | (Inr u, s1) \<Rightarrow>
               (case transaction e req data s1 of
                  (Inr appId, s2) \<Rightarrow> (Sent (Response 200 (ApplySuccess appId)), release s2)
                | (Inl x, s2) \<Rightarrow>
                    (case catch_with_connection e s2 of (out, s3) \<Rightarrow> (out, release s3)))))"

subsection \<open>POST /api/register\<close>

record register_body =
  body_name :: "string option"
  body_email :: "string option"
  body_password :: "string option"
  body_age :: "json option"
  body_gender :: "string option"

text \<open>\<^verbatim>\<open>getSql('SELECT id FROM users WHERE email = ?', [email])\<close>: the first row found.\<close>

definition select_user_by_email :: "string \<Rightarrow> db \<Rightarrow> user option" where
  "select_user_by_email em d = find (\<lambda>u. email u = em) (users d)"

text \<open>\<^verbatim>\<open>(age !== undefined && age !== null && !isNaN(Number(age))) ? Number(age) : null\<close>;
  \<open>js_Number\<close> answers \<open>None\<close> for NaN.\<close>

definition validatedAge :: "env \<Rightarrow> json option \<Rightarrow> rat option" where
  "validatedAge e a =
     (case a of None \<Rightarrow> None | Some v \<Rightarrow> (if v = JNull then None else js_Number e v))"

text \<open>\<^verbatim>\<open>gender || null\<close>.\<close>

definition validatedGender :: "string option \<Rightarrow> string option" where
  "validatedGender g = (if truthy_str g then g else None)"

definition registration_failed :: response where
  "registration_failed =
     Response 500 (Error ''Server error: registration failed. Please try again later.'')"

definition missing_fields :: response where
  "missing_fields =
     Response 400 (Error ''Missing required fields: name, email, and password are required.'')"

definition api_register :: "env \<Rightarrow> register_body \<Rightarrow> db \<Rightarrow> response \<times> db" where
  "api_register e b d =
     (case (body_name b, body_email b, body_password b) of
        (Some nm, Some em, Some pw) \<Rightarrow>
          (if nm = [] \<or> em = [] \<or> pw = [] then (missing_fields, d)
           else if rejects e SelectUserByEmail then (registration_failed, d)
           else
             (case select_user_by_email em d of
                Some existing \<Rightarrow> (Response 409 (Error ''Email already registered''), d)
              | None \<Rightarrow>
                  (case bcrypt_hash e pw of
                     None \<Rightarrow> (registration_failed, d)
                   | Some hash \<Rightarrow>
                       (if rejects e InsertUser then (registration_failed, d)
                        else
                          (let insertId = fresh_id (map user_id (users d));
                               row = \<lparr>user_id = insertId, name = nm, email = em,
                                      password_hash = hash, age = validatedAge e (body_age b),
                                      gender = validatedGender (body_gender b), role = ''user''\<rparr>
                           in (Response 200 (RegisterSuccess insertId),
                               d\<lparr>users := users d @ [row]\<rparr>))))))
      | _ \<Rightarrow> (missing_fields, d))"

subsection \<open>POST /api/admin/application/:id/approve and /reject\<close>

text \<open>\<^verbatim>\<open>UPDATE applications SET status=? WHERE id=?\<close>.\<close>

definition update_status :: "status \<Rightarrow> nat \<Rightarrow> db \<Rightarrow> db" where
  "update_status st i d =
     d\<lparr>applications := map (\<lambda>a. if app_id a = i then a\<lparr>app_status := st\<rparr> else a) (applications d)\<rparr>"

definition trigger_fired :: response where
  "trigger_fired = Response 200 (Ack ''Trigger fired (if status changed)'')"

definition api_approve :: "env \<Rightarrow> nat \<Rightarrow> db \<Rightarrow> response \<times> db" where
  "api_approve e i d =
     (if rejects e UpdateStatus then (server_error, d)
      else (trigger_fired, update_status Approved i d))"

definition api_reject :: "env \<Rightarrow> nat \<Rightarrow> db \<Rightarrow> response \<times> db" where
  "api_reject e i d =
     (if rejects e UpdateStatus then (server_error, d)
      else (trigger_fired, update_status Rejected i d))"

subsection \<open>GET /api/schemes\<close>

record schemes_query =
  q :: "string option"
  q_academic_year :: "string option"
  q_type :: "string option"
  q_category :: "string option"
  q_international :: "string option"

text \<open>\<^verbatim>\<open>s.split(',')\<close>.\<close>

fun split_on :: "char \<Rightarrow> string \<Rightarrow> string list" where
  "split_on c [] = [[]]"
| "split_on c (x # xs) =
     (if x = c then [] # split_on c xs
      else (case split_on c xs of [] \<Rightarrow> [[x]] | w # ws \<Rightarrow> (x # w) # ws))"

text \<open>The WHERE clauses the handler pushes, each with its placeholders:
  \<^verbatim>\<open>(scheme_name LIKE ? OR scholarship_name LIKE ?)\<close>, \<^verbatim>\<open>academic_year = ?\<close>, \<^verbatim>\<open>type = ?\<close>,
  \<^verbatim>\<open>category IN (?,...,?)\<close> and \<^verbatim>\<open>is_international_eligible = 1\<close>.\<close>

datatype clause = NameLike | AcademicYearEq | TypeEq | CategoryIn nat | InternationalEligible

fun placeholders :: "clause \<Rightarrow> nat" where
  "placeholders NameLike = 2"
| "placeholders AcademicYearEq = 1"
| "placeholders TypeEq = 1"
| "placeholders (CategoryIn n) = n"
| "placeholders InternationalEligible = 0"

text \<open>The client library fills the placeholders from the values in order and sends the
  text. A placeholder left without a value stays a bare \<^verbatim>\<open>?\<close>, which the store refuses
  as a syntax error, as it does an empty \<^verbatim>\<open>IN ()\<close>.\<close>

fun well_formed :: "clause list \<Rightarrow> string list \<Rightarrow> bool" where
  "well_formed [] ps = True"
| "well_formed (c # cs) ps =
     (placeholders c \<le> length ps \<and> c \<noteq> CategoryIn 0 \<and> well_formed cs (drop (placeholders c) ps))"

fun holds_clause :: "env \<Rightarrow> clause \<Rightarrow> string list \<Rightarrow> scheme \<Rightarrow> bool" where
  "holds_clause e NameLike (a # b # ps) s =
     (sql_like e a (scheme_name s) \<or> sql_like e b (scholarship_name s))"
| "holds_clause e AcademicYearEq (a # ps) s = (academic_year s = a)"
| "holds_clause e TypeEq (a # ps) s = (scheme_type s = a)"
| "holds_clause e (CategoryIn n) ps s = (category s \<in> set (take n ps))"
| "holds_clause e InternationalEligible ps s = (is_international_eligible s = Some True)"
| "holds_clause e c ps s = False"

fun holds_where :: "env \<Rightarrow> clause list \<Rightarrow> string list \<Rightarrow> scheme \<Rightarrow> bool" where
  "holds_where e [] ps s = True"
| "holds_where e (c # cs) ps s =
     (holds_clause e c ps s \<and> holds_where e cs (drop (placeholders c) ps) s)"

text \<open>\<^verbatim>\<open>ORDER BY application_deadline IS NULL, application_deadline\<close>.\<close>

definition deadline_key :: "scheme \<Rightarrow> nat \<times> nat" where
  "deadline_key s = (case application_deadline s of None \<Rightarrow> (1, 0) | Some t \<Rightarrow> (0, t))"

text \<open>\<^verbatim>\<open>allSql('SELECT * FROM schemes' + where + ' ORDER BY ...', params)\<close>.\<close>

definition allSql_schemes :: "env \<Rightarrow> clause list \<Rightarrow> string list \<Rightarrow> db \<Rightarrow> exn + scheme list" where
  "allSql_schemes e cs ps d =
     (if rejects e SelectSchemes then Inl StoreError
      else if well_formed cs ps then Inr (sort_key deadline_key (filter (holds_where e cs ps) (schemes d)))
      else Inl StoreError)"

text \<open>\<^verbatim>\<open>if (v) { ... }\<close> for a query parameter that is a string or absent.\<close>

definition when_given :: "string option \<Rightarrow> (string \<Rightarrow> 'a list) \<Rightarrow> 'a list" where
  "when_given v f = (case v of None \<Rightarrow> [] | Some s \<Rightarrow> (if s = [] then [] else f s))"

text \<open>\<^verbatim>\<open>category.split(',').map(s => s.trim())\<close>.\<close>

definition cats :: "env \<Rightarrow> string \<Rightarrow> string list" where
  "cats e c = map (js_trim e) (split_on CHR '','' c)"

definition clauses :: "env \<Rightarrow> schemes_query \<Rightarrow> clause list" where
  "clauses e r =
     when_given (q r) (\<lambda>v. [NameLike]) @
     when_given (q_academic_year r) (\<lambda>v. [AcademicYearEq]) @
     when_given (q_type r) (\<lambda>v. [TypeEq]) @
     when_given (q_category r) (\<lambda>v. [CategoryIn (length (cats e v))]) @
     (if q_international r = Some ''1'' then [InternationalEligible] else [])"

text \<open>The values pushed in \<^verbatim>\<open>src/server.js\<close>.\<close>

definition params :: "env \<Rightarrow> schemes_query \<Rightarrow> string list" where
  "params e r =
     when_given (q r) (\<lambda>v. [''%'' @ v @ ''%'', ''%'' @ v @ ''%'']) @
     when_given (q_academic_year r) (\<lambda>v. [v]) @
     when_given (q_type r) (\<lambda>v. [v]) @
     when_given (q_category r) (cats e)"

text \<open>The handler of \<^verbatim>\<open>src/server.js\<close>: it builds \<open>params\<close> and calls
  \<^verbatim>\<open>allSql('SELECT * FROM schemes' + where + ' ORDER BY ...')\<close> without them, so
  \<^verbatim>\<open>allSql\<close> runs the statement with its default \<^verbatim>\<open>params = []\<close>.\<close>

definition api_schemes :: "env \<Rightarrow> schemes_query \<Rightarrow> db \<Rightarrow> response" where
  "api_schemes e r d =
     (case allSql_schemes e (clauses e r) [] d of
        Inl x \<Rightarrow> server_error
      | Inr rows \<Rightarrow> Response 200 (Schemes rows))"

text \<open>The handler of the repository's other \<^verbatim>\<open>server.js\<close> ("Corrected Version"): it
  trims the academic year and the type, and passes \<open>params\<close> to \<^verbatim>\<open>allSql\<close>.\<close>

definition params_corrected :: "env \<Rightarrow> schemes_query \<Rightarrow> string list" where
  "params_corrected e r =
     when_given (q r) (\<lambda>v. [''%'' @ v @ ''%'', ''%'' @ v @ ''%'']) @
     when_given (q_academic_year r) (\<lambda>v. [js_trim e v]) @
     when_given (q_type r) (\<lambda>v. [js_trim e v]) @
     when_given (q_category r) (cats e)"

definition api_schemes_corrected :: "env \<Rightarrow> schemes_query \<Rightarrow> db \<Rightarrow> response" where
  "api_schemes_corrected e r d =
     (case allSql_schemes e (clauses e r) (params_corrected e r) d of
        Inl x \<Rightarrow> server_error
      | Inr rows \<Rightarrow> Response 200 (Schemes rows))"

subsection \<open>GET /api/admin/pending-applications\<close>

text \<open>\<^verbatim>\<open>xs LEFT JOIN ys ON on\<close>: every row of \<open>xs\<close> with each row of \<open>ys\<close> it matches, or
  once with NULLs when it matches none.\<close>

definition left_join :: "('a \<Rightarrow> 'b \<Rightarrow> bool) \<Rightarrow> 'a list \<Rightarrow> 'b list \<Rightarrow> ('a \<times> 'b option) list" where
  "left_join on xs ys =
     concat (map (\<lambda>x. case filter (on x) ys of
                         [] \<Rightarrow> [(x, None)]
                       | m # ms \<Rightarrow> map (\<lambda>y. (x, Some y)) (m # ms)) xs)"

text \<open>The select list: \<^verbatim>\<open>a.id, a.application_date, a.status, u.name as applicant_name,
  u.email as applicant_email, s.scheme_name\<close>.\<close>

definition select_row :: "(application \<times> user option) \<times> scheme option \<Rightarrow> pending_row" where
  "select_row r =
     (case r of ((a, u), s) \<Rightarrow>
        PendingRow (app_id a) (application_date a) (app_status a)
          (map_option name u) (map_option email u) (map_option scheme_name s))"

text \<open>The handler of the "Corrected Version": applications
  \<^verbatim>\<open>LEFT JOIN users u ON a.user_id = u.id LEFT JOIN schemes s ON a.scheme_id = s.id
  WHERE a.status = 'Pending' ORDER BY a.application_date ASC\<close>. How the store compares
  the reference an application holds with a key is the environment's \<open>sql_ref_eq\<close>.\<close>

definition pending_rows :: "env \<Rightarrow> db \<Rightarrow> pending_row list" where
  "pending_rows e d =
     map select_row
       (sort_key (\<lambda>r. application_date (fst (fst r)))
          (filter (\<lambda>r. app_status (fst (fst r)) = Pending)
             (left_join (\<lambda>au s. sql_ref_eq e (app_scheme_id (fst au)) (scheme_id s))
                (left_join (\<lambda>a u. sql_ref_eq e (app_user_id a) (user_id u)) (applications d) (users d))
                (schemes d))))"

definition api_pending_corrected :: "env \<Rightarrow> db \<Rightarrow> response" where
  "api_pending_corrected e d =
     (if rejects e SelectPending then server_error
      else Response 200 (Applications (pending_rows e d)))"

text \<open>The handler of \<^verbatim>\<open>src/server.js\<close>:
  \<^verbatim>\<open>allSql("SELECT * FROM v_admin_applications WHERE status='Pending'")\<close>, over the rows
  of the view.\<close>

definition api_pending :: "env \<Rightarrow> pending_row list \<Rightarrow> response" where
  "api_pending e v_admin_applications =
     (if rejects e SelectPending then server_error
      else Response 200 (Applications (filter (\<lambda>r. row_status r = Pending) v_admin_applications)))"

subsection \<open>The requests that write, in sequence\<close>

datatype request =
    Register register_body
  | Apply apply_request
  | Approve nat
  | Reject nat

text \<open>The committed tables after a request; every request finds the pool idle.\<close>

fun handle :: "env \<Rightarrow> request \<Rightarrow> db \<Rightarrow> db" where
  "handle e (Register b) d = snd (api_register e b d)"
| "handle e (Apply r) d = committed (snd (api_apply e r (idle d)))"
| "handle e (Approve i) d = snd (api_approve e i d)"
| "handle e (Reject i) d = snd (api_reject e i d)"

fun serve :: "(env \<times> request) list \<Rightarrow> db \<Rightarrow> db" where
  "serve [] d = d"
| "serve ((e, r) # rs) d = serve rs (handle e r d)"

subsection \<open>Notions the properties are stated with\<close>

text \<open>Two stores that differ at most in the calls logged so far.\<close>

definition same_tables :: "store \<Rightarrow> store \<Rightarrow> bool" where
  "same_tables s t = (committed s = committed t \<and> tx s = tx t \<and> held s = held t)"

text \<open>A call whose result and effect on the tables do not depend on the calls logged
  so far.\<close>

definition ignores_log :: "'a io \<Rightarrow> bool" where
  "ignores_log m =
     (\<forall>s t. same_tables s t \<longrightarrow>
        fst (m s) = fst (m t) \<and> same_tables (snd (m s)) (snd (m t)))"

text \<open>The apply handler answered with the new application's id.\<close>

definition applied :: "outcome \<Rightarrow> nat \<Rightarrow> bool" where
  "applied out n = (out = Sent (Response 200 (ApplySuccess n)))"

text \<open>The files the apply handler reads: \<^verbatim>\<open>req.files.photo[0]\<close>, then
  \<^verbatim>\<open>req.files.mark10[0]\<close>, each when present.\<close>

fun first_file :: "upload_file list option \<Rightarrow> upload_file list" where
  "first_file None = []"
| "first_file (Some []) = []"
| "first_file (Some (f # fs)) = [f]"

fun uploaded :: "uploads option \<Rightarrow> upload_file list" where
  "uploaded None = []"
| "uploaded (Some u) = first_file (photo u) @ first_file (mark10 u)"

text \<open>What \<open>applyUpload\<close> leaves in \<^verbatim>\<open>req.files\<close>: under each field at most one file,
  of that field name, out of the files \<open>A\<close> of the form.\<close>

definition listed :: "uploads \<Rightarrow> upload_file set \<Rightarrow> bool" where
  "listed u A =
     ((case photo u of None \<Rightarrow> True
       | Some fs \<Rightarrow> (\<exists>f. fs = [f] \<and> fieldname f = ''photo'' \<and> f \<in> A)) \<and>
      (case mark10 u of None \<Rightarrow> True
       | Some fs \<Rightarrow> (\<exists>f. fs = [f] \<and> fieldname f = ''mark10'' \<and> f \<in> A)))"

text \<open>The required fields of a registration are present (truthy).\<close>

definition required_fields :: "register_body \<Rightarrow> bool" where
  "required_fields b =
     (truthy_str (body_name b) \<and> truthy_str (body_email b) \<and> truthy_str (body_password b))"

text \<open>The users registered under an email.\<close>

definition registered :: "string \<Rightarrow> db \<Rightarrow> user list" where
  "registered em d = filter (\<lambda>u. email u = em) (users d)"

text \<open>What one application contributes to the joined listing: a row for every user
  and scheme its references match, with NULLs where a reference matches none.\<close>

definition or_null_row :: "'a list \<Rightarrow> 'a option list" where
  "or_null_row ms = (case ms of [] \<Rightarrow> [None] | m # rest \<Rightarrow> map Some ms)"

definition rows_of :: "env \<Rightarrow> db \<Rightarrow> application \<Rightarrow> pending_row list" where
  "rows_of e d a =
     concat (map (\<lambda>u. map (\<lambda>s. select_row ((a, u), s))
                    (or_null_row (filter (\<lambda>s. sql_ref_eq e (app_scheme_id a) (scheme_id s)) (schemes d))))
               (or_null_row (filter (\<lambda>u. sql_ref_eq e (app_user_id a) (user_id u)) (users d))))"

text \<open>Modelled from the spec: the view \<^verbatim>\<open>v_admin_applications\<close>, which is defined in the
  database and is not in the repository. After the spec's contract of the admin pending
  list, it lists every application joined with the owning user's name and email and
  the scheme's name, oldest submission first.\<close>

definition v_admin_applications :: "env \<Rightarrow> db \<Rightarrow> pending_row list" where
  "v_admin_applications e d =
     sort_key row_application_date (concat (map (rows_of e d) (applications d)))"

text \<open>The scheme filters, one per dimension; a dimension that is not supplied lets
  every scheme through.\<close>

definition matches_q :: "env \<Rightarrow> schemes_query \<Rightarrow> scheme \<Rightarrow> bool" where
  "matches_q e r s =
     (case q r of None \<Rightarrow> True
      | Some v \<Rightarrow> v = [] \<or> sql_like e (''%'' @ v @ ''%'') (scheme_name s) \<or>
                  sql_like e (''%'' @ v @ ''%'') (scholarship_name s))"

definition matches_academic_year :: "env \<Rightarrow> schemes_query \<Rightarrow> scheme \<Rightarrow> bool" where
  "matches_academic_year e r s =
     (case q_academic_year r of None \<Rightarrow> True
      | Some v \<Rightarrow> v = [] \<or> academic_year s = js_trim e v)"

definition matches_type :: "env \<Rightarrow> schemes_query \<Rightarrow> scheme \<Rightarrow> bool" where
  "matches_type e r s =
     (case q_type r of None \<Rightarrow> True | Some v \<Rightarrow> v = [] \<or> scheme_type s = js_trim e v)"

definition matches_category :: "env \<Rightarrow> schemes_query \<Rightarrow> scheme \<Rightarrow> bool" where
  "matches_category e r s =
     (case q_category r of None \<Rightarrow> True | Some v \<Rightarrow> v = [] \<or> category s \<in> set (cats e v))"

definition matches_international :: "schemes_query \<Rightarrow> scheme \<Rightarrow> bool" where
  "matches_international r s =
     (if q_international r = Some ''1'' then is_international_eligible s = Some True else True)"

definition no_filter :: schemes_query where
  "no_filter = \<lparr>q = None, q_academic_year = None, q_type = None, q_category = None,
                q_international = None\<rparr>"

text \<open>The schemes a handler's response lists.\<close>

fun listing :: "response \<Rightarrow> scheme list" where
  "listing (Response c (Schemes rows)) = rows"
| "listing r = []"

subsection \<open>Concrete inputs\<close>

definition demo_text :: string where
  \<open>demo_text = ''{"user_id":1,"scheme_id":2,"amount_applied":5000}''\<close>

definition demo_payload :: json where
  "demo_payload = JObj [(''user_id'', JNum 1), (''scheme_id'', JNum 2), (''amount_applied'', JNum 5000)]"

definition zero_text :: string where
  \<open>zero_text = ''{"user_id":1,"scheme_id":2,"amount_applied":0}''\<close>

definition zero_payload :: json where
  "zero_payload = JObj [(''user_id'', JNum 1), (''scheme_id'', JNum 2), (''amount_applied'', JNum 0)]"

definition no_user_text :: string where
  \<open>no_user_text = ''{"scheme_id":2}''\<close>

definition demo_parse :: "string \<Rightarrow> json option" where
  "demo_parse t =
     (if t = demo_text then Some demo_payload
      else if t = zero_text then Some zero_payload
      else if t = no_user_text then Some (JObj [(''scheme_id'', JNum 2)])
      else if t = ''null'' then Some JNull
      else None)"

definition demo_stringify :: "json \<Rightarrow> string" where
  "demo_stringify v =
     (if v = demo_payload then demo_text
      else if v = zero_payload then zero_text
      else ''null'')"

text \<open>A matcher for the patterns the scheme search builds: \<^verbatim>\<open>%\<close> stands for any run of
  characters, every other character for itself.\<close>

fun demo_like :: "string \<Rightarrow> string \<Rightarrow> bool" where
  "demo_like [] t = (t = [])"
| "demo_like (p # ps) [] = (p = CHR ''%'' \<and> demo_like ps [])"
| "demo_like (p # ps) (c # cs) =
     (if p = CHR ''%'' then (demo_like ps (c # cs) \<or> demo_like (p # ps) cs)
      else (p = c \<and> demo_like ps cs))"

definition demo_env :: "(call \<Rightarrow> bool) \<Rightarrow> env" where
  "demo_env rej =
     \<lparr>JSON_parse = demo_parse, JSON_stringify = demo_stringify,
      js_Number = (\<lambda>v. case v of JNum r \<Rightarrow> Some r | _ \<Rightarrow> None),
      bcrypt_hash = (\<lambda>pw. Some (''$2a$10$'' @ pw)),
      js_trim = (\<lambda>s. rev (dropWhile (\<lambda>c. c = CHR '' '') (rev (dropWhile (\<lambda>c. c = CHR '' '') s)))),
      sql_like = demo_like, sql_ref_eq = (\<lambda>v i. v = JNum (of_nat i)),
      rejects = rej, now = 1700000000\<rparr>"

definition no_faults :: "call \<Rightarrow> bool" where
  "no_faults c = False"

definition photo_insert_fails :: "call \<Rightarrow> bool" where
  "photo_insert_fails c = (c = InsertDocument ''photo'')"

definition merit :: scheme where
  "merit = \<lparr>scheme_id = 1, scheme_name = ''Merit Award'', scholarship_name = ''State Merit'',
            amount = 10000, academic_year = ''2024-25'', scheme_type = ''Merit'',
            category = ''General'', is_international_eligible = Some False,
            application_deadline = None\<rparr>"

definition means :: scheme where
  "means = \<lparr>scheme_id = 2, scheme_name = ''Means Grant'', scholarship_name = ''Central Means'',
            amount = 5000, academic_year = ''2024-25'', scheme_type = ''Means'',
            category = ''OBC'', is_international_eligible = Some True,
            application_deadline = Some 20250131\<rparr>"

definition asha :: user where
  "asha = \<lparr>user_id = 1, name = ''Asha'', email = ''asha@example.org'', password_hash = ''x'',
           age = Some 19, gender = None, role = ''user''\<rparr>"

definition older :: application where
  "older = \<lparr>app_id = 1, app_user_id = JNum 1, app_scheme_id = JNum 2, amount_applied = JNull,
            data_json = ''{}'', app_status = Pending, application_date = 10\<rparr>"

definition newer :: application where
  "newer = \<lparr>app_id = 2, app_user_id = JNum 7, app_scheme_id = JNum 1, amount_applied = JNull,
            data_json = ''{}'', app_status = Pending, application_date = 20\<rparr>"

definition decided :: application where
  "decided = \<lparr>app_id = 3, app_user_id = JNum 1, app_scheme_id = JNum 1, amount_applied = JNull,
              data_json = ''{}'', app_status = Approved, application_date = 5\<rparr>"

definition demo_db :: db where
  "demo_db = \<lparr>users = [asha], schemes = [merit, means], applications = [newer, decided, older],
              documents = []\<rparr>"

definition demo_photo :: upload_file where
  "demo_photo = \<lparr>fieldname = ''photo'', originalname = ''me.png'', filename = ''3f2a9c''\<rparr>"

definition demo_request :: apply_request where
  "demo_request =
     \<lparr>body_data = Some demo_text, files = Some \<lparr>photo = Some [demo_photo], mark10 = None\<rparr>\<rparr>"

definition demo_registration :: register_body where
  "demo_registration =
     \<lparr>body_name = Some ''Ravi'', body_email = Some ''ravi@example.org'',
      body_password = Some ''secret'', body_age = Some (JNum 20), body_gender = None\<rparr>"

section \<open>Properties of the apply handler\<close>

lemmas prim_defs = getConnection_def beginTransaction_def commit_def rollback_def release_def
  insert_application_def insert_document_def logged_def working_def store_write_def
  await_def resolve_def throw_def

lemma transaction_throw:
  "transaction e req data s = (Inl x, s') \<Longrightarrow>
     committed s' = committed s \<and> held s' = held s \<and> (\<exists>new. calls s' = calls s @ new \<and> (Release, True) \<notin> set new \<and> (Rollback, True) \<notin> set new  \<and> (Rollback, False) \<notin> set new)"
  unfolding transaction_def insert_documents_def insert_first_def prim_defs
  by (auto simp: Let_def split: if_splits option.splits list.splits prod.splits sum.splits)

lemma transaction_success:
  "tx s = None \<Longrightarrow> transaction e req data s = (Inr n, s') \<Longrightarrow>
     tx s' = None \<and> held s' = held s \<and>
     users (committed s') = users (committed s) \<and> schemes (committed s') = schemes (committed s) \<and>
     n = fresh_id (map app_id (applications (committed s))) \<and>
     applications (committed s') = applications (committed s) @
       [\<lparr>app_id = n, app_user_id = param (get_prop data ''user_id''),
         app_scheme_id = param (get_prop data ''scheme_id''),
         amount_applied = or_null (get_prop data ''amount_applied''),
         data_json = JSON_stringify e data, app_status = Pending, application_date = now e\<rparr>] \<and>
     (\<exists>docs. documents (committed s') = documents (committed s) @ docs \<and>
        map (\<lambda>r. (application_id r, doc_type r, doc_filename r)) docs =
        map (\<lambda>f. (n, fieldname f, filename f)) (uploaded (files req))) \<and>
     (\<exists>new. calls s' = calls s @ new \<and> set new \<subseteq> {(c, True) | c. c \<noteq> Release \<and> c \<noteq> Rollback \<and> c \<noteq> GetConnection})"
  unfolding transaction_def insert_documents_def insert_first_def prim_defs
  by (auto simp: Let_def split: if_splits option.splits list.splits prod.splits sum.splits)

lemma validate_Some:
  "validate e req = Inr (Some data) \<Longrightarrow>
     (\<exists>t. body_data req = Some t \<and> t \<noteq> [] \<and> JSON_parse e t = Some data) \<and> data \<noteq> JNull \<and> \<not> missing_reference data"
  unfolding validate_def parse_data_def missing_reference_def
  by (auto split: option.splits if_splits sum.splits)

lemma api_apply_committed:
  assumes "api_apply e req (idle d) = (out, s')"
  shows "(applied out n \<longrightarrow>
            users (committed s') = users d \<and> schemes (committed s') = schemes d \<and>
            (\<exists>row docs. app_id row = n \<and>
               applications (committed s') = applications d @ [row] \<and>
               documents (committed s') = documents d @ docs \<and>
               map (\<lambda>r. (application_id r, doc_type r, doc_filename r)) docs =
               map (\<lambda>f. (n, fieldname f, filename f)) (uploaded (files req))))
       \<and> ((\<forall>m. \<not> applied out m) \<longrightarrow> committed s' = d)
       \<and> ((\<exists>c. (c, False) \<in> set (calls s')) \<longrightarrow> committed s' = d \<and> (\<forall>m. \<not> applied out m))"
proof (cases "validate e req")
  case (Inl x)
  with assms show ?thesis
    by (auto simp: api_apply_def applied_def server_error_def idle_def)
next
  case (Inr v)
  show ?thesis
  proof (cases v)
    case None
    with Inr assms show ?thesis
      by (auto simp: api_apply_def applied_def idle_def)
  next
    case (Some data)
    show ?thesis
    proof (cases "rejects e GetConnection")
      case True
      with Inr Some assms show ?thesis
        by (auto simp: api_apply_def applied_def server_error_def idle_def getConnection_def logged_def)
    next
      case False
      define s1 where "s1 = (logged GetConnection True (idle d))\<lparr>held := Suc 0\<rparr>"
      have s1: "tx s1 = None" "committed s1 = d" "calls s1 = [(GetConnection, True)]"
        by (simp_all add: s1_def idle_def logged_def)
      obtain r s2 where tr: "transaction e req data s1 = (r, s2)"
        by (cases "transaction e req data s1")
      show ?thesis
      proof (cases r)
        case (Inl x)
        from transaction_throw[OF tr[unfolded Inl]] s1 have c2: "committed s2 = d" by simp
        from Inr Some False tr Inl assms
        have "out \<noteq> Sent (Response 200 (ApplySuccess m))" and "committed s' = committed s2" for m
          by (auto simp: api_apply_def getConnection_def idle_def s1_def server_error_def
                catch_with_connection_def rollback_def release_def logged_def
              split: if_splits prod.splits sum.splits)
        with c2 show ?thesis by (simp add: applied_def)
      next
        case (Inr m)
        note ts = transaction_success[OF s1(1) tr[unfolded Inr]]
        from \<open>validate e req = Inr v\<close> Some False tr Inr assms
        have out: "out = Sent (Response 200 (ApplySuccess m))" and s': "s' = release s2"
          by (auto simp: api_apply_def getConnection_def idle_def s1_def)
        from ts obtain new where new: "calls s2 = calls s1 @ new"
          "set new \<subseteq> {(c, True) | c. c \<noteq> Release \<and> c \<noteq> Rollback \<and> c \<noteq> GetConnection}"
          by blast
        have nofail: "(c, False) \<notin> set (calls s')" for c
          using new s1(3) by (auto simp: s' release_def logged_def)
        have com: "committed s' = committed s2" by (simp add: s' release_def logged_def)
        from ts s1 out com nofail show ?thesis
          by (auto simp: applied_def)
      qed
    qed
  qed
qed


text \<open>The calls on the pool and on the connection do not read the log.\<close>

lemma ignores_logD:
  assumes "ignores_log m" and "same_tables s t" and "m s = (r, s1)" and "m t = (r', t1)"
  shows "r' = r \<and> same_tables s1 t1"
proof -
  from assms(1,2) have "fst (m s) = fst (m t) \<and> same_tables (snd (m s)) (snd (m t))"
    unfolding ignores_log_def by blast
  with assms(3,4) show ?thesis by simp
qed

lemma ignores_log_await:
  assumes "ignores_log m" and "\<And>a. ignores_log (f a)"
  shows "ignores_log (await m f)"
  unfolding ignores_log_def
proof (intro allI impI)
  fix s t :: store
  assume st: "same_tables s t"
  obtain r s1 where ms: "m s = (r, s1)" by (cases "m s")
  obtain r' t1 where mt: "m t = (r', t1)" by (cases "m t")
  from ignores_logD[OF assms(1) st ms mt] have r: "r' = r" and s1: "same_tables s1 t1"
    by simp_all
  show "fst (await m f s) = fst (await m f t) \<and>
        same_tables (snd (await m f s)) (snd (await m f t))"
  proof (cases r)
    case (Inl x)
    with ms mt r s1 show ?thesis by (simp add: await_def)
  next
    case (Inr a)
    from assms(2)[of a] s1 have "fst (f a s1) = fst (f a t1) \<and>
        same_tables (snd (f a s1)) (snd (f a t1))"
      by (simp add: ignores_log_def)
    with Inr ms mt r show ?thesis by (simp add: await_def)
  qed
qed

lemma ignores_log_calls:
  "ignores_log (resolve a)" "ignores_log (throw x)" "ignores_log (getConnection e)"
  "ignores_log (beginTransaction e)" "ignores_log (commit e)" "ignores_log (rollback e)"
  "ignores_log (insert_application e uid sid amt js)" "ignores_log (insert_document e appId ty fname)"
  unfolding ignores_log_def same_tables_def resolve_def throw_def getConnection_def
    beginTransaction_def commit_def rollback_def insert_application_def insert_document_def
    logged_def working_def store_write_def
  by (simp_all add: Let_def split: option.splits)

lemma ignores_log_insert_first: "ignores_log (insert_first e appId fs)"
  unfolding insert_first_def
  by (cases fs rule: first_file.cases) (simp_all add: ignores_log_calls)

lemma ignores_log_transaction: "ignores_log (transaction e req data)"
  unfolding transaction_def insert_documents_def
  by (cases "files req")
     (simp_all add: ignores_log_await ignores_log_calls ignores_log_insert_first)

lemma same_tables_release: "same_tables s t \<Longrightarrow> same_tables (release s) (release t)"
  by (simp add: same_tables_def release_def logged_def)

text \<open>So the apply handler answers alike, and leaves the same tables, on two stores
  that differ in their logs only.\<close>

lemma api_apply_same_tables:
  assumes "same_tables s t"
  shows "fst (api_apply e req s) = fst (api_apply e req t) \<and>
         same_tables (snd (api_apply e req s)) (snd (api_apply e req t))"
proof (cases "validate e req")
  case (Inl x)
  with assms show ?thesis by (simp add: api_apply_def)
next
  case (Inr v)
  show ?thesis
  proof (cases v)
    case None
    with Inr assms show ?thesis by (simp add: api_apply_def)
  next
    case (Some data)
    obtain g s1 where gs: "getConnection e s = (g, s1)" by (cases "getConnection e s")
    obtain g' t1 where gt: "getConnection e t = (g', t1)" by (cases "getConnection e t")
    from ignores_logD[OF ignores_log_calls(3) assms gs gt] have g: "g' = g" and s1: "same_tables s1 t1"
      by simp_all
    show ?thesis
    proof (cases g)
      case (Inl x)
      with Inr Some gs gt g s1 show ?thesis by (simp add: api_apply_def)
    next
      case c: (Inr u)
      obtain r s2 where ts: "transaction e req data s1 = (r, s2)"
        by (cases "transaction e req data s1")
      obtain r' t2 where tt: "transaction e req data t1 = (r', t2)"
        by (cases "transaction e req data t1")
      from ignores_logD[OF ignores_log_transaction s1 ts tt] have r: "r' = r" and s2: "same_tables s2 t2"
        by simp_all
      show ?thesis
      proof (cases r)
        case ok: (Inr appId)
        with Inr Some gs gt g c ts tt r same_tables_release[OF s2] show ?thesis
          by (simp add: api_apply_def)
      next
        case (Inl x)
        obtain b s3 where rs: "rollback e s2 = (b, s3)" by (cases "rollback e s2")
        obtain b' t3 where rt: "rollback e t2 = (b', t3)" by (cases "rollback e t2")
        from ignores_logD[OF ignores_log_calls(6) s2 rs rt] have b: "b' = b" and s3: "same_tables s3 t3"
          by simp_all
        from Inr Some gs gt g c ts tt r Inl rs rt b same_tables_release[OF s3] show ?thesis
          by (cases b) (simp_all add: api_apply_def catch_with_connection_def)
      qed
    qed
  qed
qed

lemma transaction_calls:
  "transaction e req data s = (r, s') \<Longrightarrow>
     held s' = held s \<and>
     (\<exists>new. calls s' = calls s @ new \<and> (Release, True) \<notin> set new \<and>
        (GetConnection, True) \<notin> set new \<and> (Rollback, True) \<notin> set new \<and> (Rollback, False) \<notin> set new) \<and>
     (case r of Inr n \<Rightarrow> tx s' = None | Inl x \<Rightarrow> committed s' = committed s)"
  unfolding transaction_def insert_documents_def insert_first_def prim_defs
  by (auto simp: Let_def split: if_splits option.splits list.splits prod.splits sum.splits)

text \<open>Unless the rollback itself was rejected, the handler leaves no transaction open
  and no connection checked out.\<close>

lemma api_apply_settled:
  assumes "api_apply e req s = (out, s')" and "tx s = None"
    and "(Rollback, False) \<notin> set (calls s')"
  shows "tx s' = None \<and> held s' = held s"
proof (cases "validate e req")
  case (Inl x)
  with assms show ?thesis by (auto simp: api_apply_def)
next
  case (Inr v)
  show ?thesis
  proof (cases v)
    case None
    with Inr assms show ?thesis by (auto simp: api_apply_def)
  next
    case (Some data)
    show ?thesis
    proof (cases "rejects e GetConnection")
      case True
      with Inr Some assms show ?thesis
        by (auto simp: api_apply_def getConnection_def logged_def)
    next
      case False
      define s1 where "s1 = (logged GetConnection True s)\<lparr>held := Suc (held s)\<rparr>"
      have s1: "held s1 = Suc (held s)"
        by (simp add: s1_def logged_def)
      obtain r s2 where tr: "transaction e req data s1 = (r, s2)"
        by (cases "transaction e req data s1")
      have h2: "held s2 = held s1"
        and rr: "(case r of Inr n \<Rightarrow> tx s2 = None | Inl x \<Rightarrow> committed s2 = committed s1)"
        using transaction_calls[OF tr] by blast+
      show ?thesis
      proof (cases r)
        case (Inl x)
        show ?thesis
        proof (cases "rejects e Rollback")
          case True
          from \<open>validate e req = Inr v\<close> Some False tr Inl assms(1) True
          have "s' = release (logged Rollback False s2)"
            by (auto simp: api_apply_def getConnection_def s1_def catch_with_connection_def rollback_def)
          then have "(Rollback, False) \<in> set (calls s')"
            by (simp add: release_def logged_def)
          with assms(3) show ?thesis by simp
        next
          case nrb: False
          from \<open>validate e req = Inr v\<close> Some False tr Inl assms(1) nrb
          have "s' = release ((logged Rollback True s2)\<lparr>tx := None\<rparr>)"
            by (auto simp: api_apply_def getConnection_def s1_def catch_with_connection_def rollback_def)
          then show ?thesis by (simp add: release_def logged_def h2 s1)
        qed
      next
        case (Inr m)
        with rr have t2: "tx s2 = None" by simp
        from \<open>validate e req = Inr v\<close> Some False tr Inr assms(1)
        have "s' = release s2"
          by (auto simp: api_apply_def getConnection_def s1_def)
        then show ?thesis by (simp add: release_def logged_def h2 s1 t2)
      qed
    qed
  qed
qed

text \<open>C1. The apply operation is all-or-nothing on the committed tables. When the
  handler answers with the new id \<open>n\<close>, the committed tables hold one more application,
  with id \<open>n\<close>, and one document row for each file it read, and nothing else changed.
  When it does not answer so, or when any call on the connection rejected (a document
  insert, the commit, ...), the committed tables are the ones it started from: no
  application row and no document row of the attempt is visible. Nor can one become
  visible later: unless the store rejected the rollback itself, the handler leaves no
  transaction open and no connection checked out, so that the next apply request
  answers, and commits, exactly what it would on an idle pool over the committed
  tables.\<close>

theorem apply_all_or_nothing:
  assumes "api_apply e req (idle d) = (out, s')"
  shows "(applied out n \<longrightarrow>
            users (committed s') = users d \<and> schemes (committed s') = schemes d \<and>
            (\<exists>row docs. app_id row = n \<and>
               applications (committed s') = applications d @ [row] \<and>
               documents (committed s') = documents d @ docs \<and>
               map (\<lambda>r. (application_id r, doc_type r, doc_filename r)) docs =
               map (\<lambda>f. (n, fieldname f, filename f)) (uploaded (files req))))
       \<and> ((\<forall>m. \<not> applied out m) \<longrightarrow> committed s' = d)
       \<and> ((\<exists>c. (c, False) \<in> set (calls s')) \<longrightarrow> committed s' = d \<and> (\<forall>m. \<not> applied out m))
       \<and> ((Rollback, False) \<notin> set (calls s') \<longrightarrow>
            tx s' = None \<and> held s' = 0 \<and>
            (\<forall>e2 req2.
               fst (api_apply e2 req2 s') = fst (api_apply e2 req2 (idle (committed s'))) \<and>
               committed (snd (api_apply e2 req2 s')) =
                 committed (snd (api_apply e2 req2 (idle (committed s'))))))"
proof -
  have later: "tx s' = None \<and> held s' = 0 \<and>
            (\<forall>e2 req2.
               fst (api_apply e2 req2 s') = fst (api_apply e2 req2 (idle (committed s'))) \<and>
               committed (snd (api_apply e2 req2 s')) =
                 committed (snd (api_apply e2 req2 (idle (committed s')))))"
    if "(Rollback, False) \<notin> set (calls s')"
  proof -
    from api_apply_settled[OF assms _ that] have t: "tx s' = None" and h: "held s' = 0"
      by (simp_all add: idle_def)
    then have "same_tables s' (idle (committed s'))"
      by (simp add: same_tables_def idle_def)
    from api_apply_same_tables[OF this] t h show ?thesis
      by (simp add: same_tables_def)
  qed
  with api_apply_committed[OF assms, of n] show ?thesis by blast
qed

text \<open>C9. Every run of the apply handler leaves as many connections checked out as it
  found. When \<^verbatim>\<open>pool.getConnection()\<close> resolved, the calls of the run end with exactly one
  \<^verbatim>\<open>release\<close>; when the run did not answer with the new id (a call rejected or the
  handler threw), \<^verbatim>\<open>rollback\<close> is the call right before that \<^verbatim>\<open>release\<close>, the committed
  tables are untouched, and a rollback that resolved has discarded the transaction's
  copy. A rollback that itself rejects ends the handler without a response (the
  uncaught exit), still releasing the connection. When no connection was acquired,
  nothing is released.\<close>

theorem apply_releases_connection:
  assumes "api_apply e req s = (out, s')"
  shows "held s' = held s \<and>
     (\<exists>new. calls s' = calls s @ new \<and>
        (if (GetConnection, True) \<in> set new
         then (\<exists>mid. new = (GetConnection, True) # mid @ [(Release, True)] \<and>
                 (Release, True) \<notin> set mid \<and>
                 (if \<exists>n. applied out n then tx s' = None
                  else (\<exists>pre ok. mid = pre @ [(Rollback, ok)] \<and> committed s' = committed s \<and>
                          (ok \<longrightarrow> tx s' = None \<and> out = Sent server_error) \<and>
                          (\<not> ok \<longrightarrow> out = Uncaught StoreError))))
         else new = [] \<or> new = [(GetConnection, False)]))"
proof (cases "validate e req")
  case (Inl x)
  with assms show ?thesis by (auto simp: api_apply_def)
next
  case (Inr v)
  show ?thesis
  proof (cases v)
    case None
    with Inr assms show ?thesis by (auto simp: api_apply_def)
  next
    case (Some data)
    show ?thesis
    proof (cases "rejects e GetConnection")
      case True
      with Inr Some assms show ?thesis
        by (auto simp: api_apply_def getConnection_def logged_def)
    next
      case False
      define s1 where "s1 = (logged GetConnection True s)\<lparr>held := Suc (held s)\<rparr>"
      have s1: "held s1 = Suc (held s)" "committed s1 = committed s" "calls s1 = calls s @ [(GetConnection, True)]"
        by (simp_all add: s1_def logged_def)
      obtain r s2 where tr: "transaction e req data s1 = (r, s2)"
        by (cases "transaction e req data s1")
      from transaction_calls[OF tr] obtain new where
        h2: "held s2 = held s1" and new: "calls s2 = calls s1 @ new" "(Release, True) \<notin> set new"
          "(GetConnection, True) \<notin> set new" "(Rollback, True) \<notin> set new" "(Rollback, False) \<notin> set new"
        and rr: "(case r of Inr n \<Rightarrow> tx s2 = None | Inl x \<Rightarrow> committed s2 = committed s1)"
        by blast
      show ?thesis
      proof (cases r)
        case (Inl x)
        with rr have c2: "committed s2 = committed s" by (simp add: s1)
        show ?thesis
        proof (cases "rejects e Rollback")
          case True
          from \<open>validate e req = Inr v\<close> Some False tr Inl assms True
          have out: "out = Uncaught StoreError" and s': "s' = release (logged Rollback False s2)"
            by (auto simp: api_apply_def getConnection_def s1_def catch_with_connection_def rollback_def)
          have "calls s' = calls s @ ((GetConnection, True) # (new @ [(Rollback, False)]) @ [(Release, True)])"
            by (simp add: s' release_def logged_def new s1)
          moreover have "held s' = held s" "committed s' = committed s"
            by (simp_all add: s' release_def logged_def h2 s1 c2)
          ultimately show ?thesis using new out
            by (auto simp: applied_def)
        next
          case nrb: False
          from \<open>validate e req = Inr v\<close> Some False tr Inl assms nrb
          have out: "out = Sent server_error" and s': "s' = release ((logged Rollback True s2)\<lparr>tx := None\<rparr>)"
            by (auto simp: api_apply_def getConnection_def s1_def catch_with_connection_def rollback_def)
          have "calls s' = calls s @ ((GetConnection, True) # (new @ [(Rollback, True)]) @ [(Release, True)])"
            by (simp add: s' release_def logged_def new s1)
          moreover have "held s' = held s" "committed s' = committed s" "tx s' = None"
            by (simp_all add: s' release_def logged_def h2 s1 c2)
          ultimately show ?thesis using new out
            by (auto simp: applied_def server_error_def)
        qed
      next
        case (Inr m)
        with rr have t2: "tx s2 = None" by simp
        from \<open>validate e req = Inr v\<close> Some False tr Inr assms
        have out: "out = Sent (Response 200 (ApplySuccess m))" and s': "s' = release s2"
          by (auto simp: api_apply_def getConnection_def s1_def)
        have "calls s' = calls s @ ((GetConnection, True) # new @ [(Release, True)])"
          by (simp add: s' release_def logged_def new s1)
        moreover have "held s' = held s" "tx s' = None"
          by (simp_all add: s' release_def logged_def h2 s1 t2)
        ultimately show ?thesis using new out
          by (auto simp: applied_def)
      qed
    qed
  qed
qed

text \<open>C5. An apply request is turned away before any call on the pool (the store,
  its list of calls included, is left as it was) when its data field is not valid JSON
  or is the JSON value null (both answered 500 from the catch block, with no connection
  to roll back), and when its payload lacks a truthy user_id or scheme_id or the data
  field is absent or empty (answered 400).\<close>

theorem apply_rejects_invalid_before_store:
  "(body_data req = Some t \<and> t \<noteq> [] \<and> JSON_parse e t = None \<longrightarrow>
      api_apply e req s = (Sent (Response 500 (Error ''Server error'')), s))
   \<and> (body_data req = Some t \<and> t \<noteq> [] \<and> JSON_parse e t = Some JNull \<longrightarrow>
      api_apply e req s = (Sent (Response 500 (Error ''Server error'')), s))
   \<and> (body_data req = Some t \<and> t \<noteq> [] \<and> JSON_parse e t = Some data \<and> data \<noteq> JNull \<and>
        missing_reference data \<longrightarrow>
      api_apply e req s = (Sent (Response 400 (Error ''Missing user_id or scheme_id'')), s))
   \<and> (body_data req = None \<or> body_data req = Some [] \<longrightarrow>
      api_apply e req s = (Sent (Response 400 (Error ''Missing user_id or scheme_id'')), s))"
  by (auto simp: api_apply_def validate_def parse_data_def missing_reference_def server_error_def)

lemma api_apply_applied:
  assumes "api_apply e req s = (out, s')" and "applied out n"
  shows "\<exists>data s2. validate e req = Inr (Some data) \<and>
           transaction e req data ((logged GetConnection True s)\<lparr>held := Suc (held s)\<rparr>) = (Inr n, s2) \<and>
           s' = release s2"
  using assms
  by (auto simp: api_apply_def applied_def server_error_def getConnection_def
        catch_with_connection_def rollback_def
      split: sum.splits option.splits if_splits prod.splits)

lemma api_apply_applied_rows:
  assumes "api_apply e req (idle d) = (out, s')" and "applied out n"
  shows "\<exists>t data docs. body_data req = Some t \<and> t \<noteq> [] \<and> JSON_parse e t = Some data \<and>
           data \<noteq> JNull \<and> \<not> missing_reference data \<and>
           applications (committed s') = applications d @
             [\<lparr>app_id = n, app_user_id = param (get_prop data ''user_id''),
               app_scheme_id = param (get_prop data ''scheme_id''),
               amount_applied = or_null (get_prop data ''amount_applied''),
               data_json = JSON_stringify e data, app_status = Pending,
               application_date = now e\<rparr>] \<and>
           documents (committed s') = documents d @ docs \<and>
           map (\<lambda>r. (application_id r, doc_type r, doc_filename r)) docs =
           map (\<lambda>f. (n, fieldname f, filename f)) (uploaded (files req))"
proof -
  from api_apply_applied[OF assms] obtain data s2 where
    v: "validate e req = Inr (Some data)" and
    tr: "transaction e req data ((logged GetConnection True (idle d))\<lparr>held := Suc (held (idle d))\<rparr>) = (Inr n, s2)" and
    s': "s' = release s2"
    by blast
  have "tx ((logged GetConnection True (idle d))\<lparr>held := Suc (held (idle d))\<rparr>) = None"
    by (simp add: idle_def logged_def)
  from transaction_success[OF this tr] validate_Some[OF v] show ?thesis
    by (auto simp: s' release_def logged_def idle_def)
qed

text \<open>C6 (amended). On success the stored row's amount_applied is the payload's
  amount_applied when that is a number other than 0, and is NULL when the field is
  absent or is null, false, the empty string or the number 0 (the handler binds
  \<^verbatim>\<open>data.amount_applied || null\<close>). The row's data_json is \<^verbatim>\<open>JSON.stringify\<close> of the parsed
  payload and its status is Pending. What is stored of an amount_applied that is
  neither a number nor falsy is left open.\<close>

theorem apply_stores_amount:
  assumes "api_apply e req (idle d) = (out, s')" and "applied out n"
  shows "\<exists>t data row. body_data req = Some t \<and> JSON_parse e t = Some data \<and>
           applications (committed s') = applications d @ [row] \<and> app_id row = n \<and>
           (\<forall>x. get_prop data ''amount_applied'' = Some (JNum x) \<and> x \<noteq> 0 \<longrightarrow>
              amount_applied row = JNum x) \<and>
           (get_prop data ''amount_applied'' = Some (JNum 0) \<longrightarrow> amount_applied row = JNull) \<and>
           (get_prop data ''amount_applied'' = None \<longrightarrow> amount_applied row = JNull) \<and>
           (get_prop data ''amount_applied'' = Some JNull \<longrightarrow> amount_applied row = JNull) \<and>
           (get_prop data ''amount_applied'' = Some (JBool False) \<longrightarrow> amount_applied row = JNull) \<and>
           (get_prop data ''amount_applied'' = Some (JStr []) \<longrightarrow> amount_applied row = JNull) \<and>
           data_json row = JSON_stringify e data \<and> app_status row = Pending"
proof -
  from api_apply_applied_rows[OF assms] obtain t data where
    b: "body_data req = Some t" "JSON_parse e t = Some data" and
    a: "applications (committed s') = applications d @
             [\<lparr>app_id = n, app_user_id = param (get_prop data ''user_id''),
               app_scheme_id = param (get_prop data ''scheme_id''),
               amount_applied = or_null (get_prop data ''amount_applied''),
               data_json = JSON_stringify e data, app_status = Pending,
               application_date = now e\<rparr>]"
    by blast
  show ?thesis
    using b a
    by (intro exI[of _ t] exI[of _ data] exI[of _ "\<lparr>app_id = n, app_user_id = param (get_prop data ''user_id''),
               app_scheme_id = param (get_prop data ''scheme_id''),
               amount_applied = or_null (get_prop data ''amount_applied''),
               data_json = JSON_stringify e data, app_status = Pending,
               application_date = now e\<rparr>"]) simp
qed

lemma applyUpload_from_listed:
  "applyUpload_from u fs = Inr u' \<Longrightarrow> listed u A \<Longrightarrow> listed u' (A \<union> set fs)"
proof (induction fs arbitrary: u A)
  case Nil
  then show ?case by simp
next
  case (Cons f fs)
  show ?case
  proof (cases "fieldname f = ''photo'' \<and> photo u = None")
    case True
    with Cons.prems have r: "applyUpload_from (u\<lparr>photo := Some [f]\<rparr>) fs = Inr u'" by simp
    have "listed (u\<lparr>photo := Some [f]\<rparr>) (insert f A)"
      using Cons.prems(2) True by (auto simp: listed_def split: option.splits)
    from Cons.IH[OF r this] show ?thesis by simp
  next
    case False
    show ?thesis
    proof (cases "fieldname f = ''mark10'' \<and> mark10 u = None")
      case True
      with False Cons.prems have r: "applyUpload_from (u\<lparr>mark10 := Some [f]\<rparr>) fs = Inr u'" by auto
      have "listed (u\<lparr>mark10 := Some [f]\<rparr>) (insert f A)"
        using Cons.prems(2) True by (auto simp: listed_def split: option.splits)
      from Cons.IH[OF r this] show ?thesis by simp
    next
      case F2: False
      with False Cons.prems show ?thesis by auto
    qed
  qed
qed

lemma applyUpload_listed: "applyUpload parts = Inr u \<Longrightarrow> listed u (set parts)"
  using applyUpload_from_listed[of "\<lparr>photo = None, mark10 = None\<rparr>" parts u "{}"]
  by (simp add: applyUpload_def listed_def)

lemma uploaded_le2: "length (uploaded fs) \<le> 2"
proof (cases fs)
  case None
  then show ?thesis by simp
next
  case (Some u)
  have "length (first_file x) \<le> 1" for x :: "upload_file list option"
    by (cases x rule: first_file.cases) auto
  from this[of "photo u"] this[of "mark10 u"] Some show ?thesis by simp
qed

lemma map_eq_single: "map g xs = [y] \<Longrightarrow> \<exists>x. xs = [x] \<and> g x = y"
  by (cases xs) auto

lemma map_eq_two: "map g xs = [y, z] \<Longrightarrow> \<exists>x x'. xs = [x, x'] \<and> g x = y \<and> g x' = z"
  by (cases xs; cases "tl xs") auto

lemma listed_documents:
  assumes l: "listed u A"
    and m: "map (\<lambda>r. (application_id r, doc_type r, doc_filename r)) docs =
            map (\<lambda>f. (n, fieldname f, filename f)) (uploaded (Some u))"
  shows "length (filter (\<lambda>r. doc_type r = ''photo'') docs) \<le> 1 \<and>
         length (filter (\<lambda>r. doc_type r = ''mark10'') docs) \<le> 1 \<and>
         (\<forall>r \<in> set docs. (doc_type r = ''photo'' \<or> doc_type r = ''mark10'') \<and>
            (\<exists>f \<in> A. doc_type r = fieldname f \<and> doc_filename r = filename f))"
proof (cases "photo u")
  case None
  show ?thesis
  proof (cases "mark10 u")
    case N2: None
    with None m show ?thesis by simp
  next
    case (Some gs)
    with l obtain g where g: "gs = [g]" "fieldname g = ''mark10''" "g \<in> A"
      by (auto simp: listed_def)
    from m None Some g have "map (\<lambda>r. (application_id r, doc_type r, doc_filename r)) docs = [(n, ''mark10'', filename g)]"
      by simp
    from map_eq_single[OF this] obtain r where "docs = [r]" "doc_type r = ''mark10''" "doc_filename r = filename g"
      by auto
    with g show ?thesis by (auto intro: bexI[where x = g])
  qed
next
  case (Some fs)
  with l obtain f where f: "fs = [f]" "fieldname f = ''photo''" "f \<in> A"
    by (auto simp: listed_def)
  show ?thesis
  proof (cases "mark10 u")
    case None
    from m None Some f have "map (\<lambda>r. (application_id r, doc_type r, doc_filename r)) docs = [(n, ''photo'', filename f)]"
      by simp
    from map_eq_single[OF this] obtain r where "docs = [r]" "doc_type r = ''photo''" "doc_filename r = filename f"
      by auto
    with f show ?thesis by (auto intro: bexI[where x = f])
  next
    case S2: (Some gs)
    with l obtain g where g: "gs = [g]" "fieldname g = ''mark10''" "g \<in> A"
      by (auto simp: listed_def)
    from m Some S2 f g have "map (\<lambda>r. (application_id r, doc_type r, doc_filename r)) docs =
        [(n, ''photo'', filename f), (n, ''mark10'', filename g)]"
      by simp
    from map_eq_two[OF this] obtain r r' where "docs = [r, r']" "doc_type r = ''photo''"
      "doc_filename r = filename f" "doc_type r' = ''mark10''" "doc_filename r' = filename g"
      by auto
    with f g show ?thesis by (auto intro: bexI[where x = f] bexI[where x = g])
  qed
qed

text \<open>C10. A successful apply adds at most two document rows: one for the first file
  under \<^verbatim>\<open>photo\<close>, then one for the first file under \<^verbatim>\<open>mark10\<close>, each with the new
  application's id, the file's field name as doc_type and the name it was stored under
  as filename (never the client's original name). When \<^verbatim>\<open>req.files\<close> is what
  \<open>applyUpload\<close> built from the form's files, at most one row has doc_type photo, at
  most one has doc_type mark10, and there is no other doc_type.\<close>

theorem apply_documents_at_most_two:
  assumes "api_apply e req (idle d) = (out, s')" and "applied out n"
  shows "\<exists>docs. documents (committed s') = documents d @ docs \<and> length docs \<le> 2 \<and>
           map (\<lambda>r. (application_id r, doc_type r, doc_filename r)) docs =
           map (\<lambda>f. (n, fieldname f, filename f)) (uploaded (files req)) \<and>
           (\<forall>parts u. applyUpload parts = Inr u \<and> files req = Some u \<longrightarrow>
              length (filter (\<lambda>r. doc_type r = ''photo'') docs) \<le> 1 \<and>
              length (filter (\<lambda>r. doc_type r = ''mark10'') docs) \<le> 1 \<and>
              (\<forall>r \<in> set docs. (doc_type r = ''photo'' \<or> doc_type r = ''mark10'') \<and>
                 (\<exists>f \<in> set parts. doc_type r = fieldname f \<and> doc_filename r = filename f)))"
proof -
  from api_apply_applied_rows[OF assms] obtain docs where
    d: "documents (committed s') = documents d @ docs" and
    m: "map (\<lambda>r. (application_id r, doc_type r, doc_filename r)) docs =
        map (\<lambda>f. (n, fieldname f, filename f)) (uploaded (files req))"
    by blast
  from map_eq_imp_length_eq[OF m] uploaded_le2[of "files req"] have len: "length docs \<le> 2"
    by simp
  have "length (filter (\<lambda>r. doc_type r = ''photo'') docs) \<le> 1 \<and>
        length (filter (\<lambda>r. doc_type r = ''mark10'') docs) \<le> 1 \<and>
        (\<forall>r \<in> set docs. (doc_type r = ''photo'' \<or> doc_type r = ''mark10'') \<and>
           (\<exists>f \<in> set parts. doc_type r = fieldname f \<and> doc_filename r = filename f))"
    if au: "applyUpload parts = Inr u" and fr: "files req = Some u" for parts u
    using listed_documents[OF applyUpload_listed[OF au] m[unfolded fr]] .
  with d m len show ?thesis
    by (intro exI[of _ docs]) blast
qed

subsection \<open>The apply handler on concrete requests\<close>

lemmas apply_eval = api_apply_def validate_def parse_data_def missing_reference_def
  transaction_def insert_documents_def insert_first_def catch_with_connection_def
  getConnection_def beginTransaction_def commit_def rollback_def release_def
  insert_application_def insert_document_def logged_def working_def store_write_def
  await_def resolve_def throw_def idle_def fresh_id_def server_error_def Let_def applied_def

lemma demo_db_tables:
  "map app_id (applications demo_db) = [2, 3, 1]" "documents demo_db = []"
  by (simp_all add: demo_db_def newer_def older_def decided_def)

lemmas demo_eval = demo_env_def demo_parse_def demo_stringify_def demo_text_def demo_payload_def
  zero_text_def zero_payload_def no_user_text_def
  no_faults_def photo_insert_fails_def demo_photo_def demo_request_def demo_db_tables

lemma demo_bad_run:
  "api_apply (demo_env photo_insert_fails) demo_request (idle demo_db) =
     (Sent server_error,
      \<lparr>committed = demo_db, tx = None, held = 0,
       calls = [(GetConnection, True), (BeginTransaction, True), (InsertApplication, True),
                (InsertDocument ''photo'', False), (Rollback, True), (Release, True)]\<rparr>)"
  by (simp add: apply_eval demo_eval)

lemma demo_good_run:
  "applied (fst (api_apply (demo_env no_faults) demo_request (idle demo_db))) 4"
  "calls (snd (api_apply (demo_env no_faults) demo_request (idle demo_db))) =
     [(GetConnection, True), (BeginTransaction, True), (InsertApplication, True),
      (InsertDocument ''photo'', True), (Commit, True), (Release, True)]"
  by (simp_all add: apply_eval demo_eval)

text \<open>Witness of C1: with the photo's insert rejected nothing of the attempt is
  committed or left in an open transaction, and the request that follows on the released
  connection is given the id the failed attempt had used; with no fault the application
  and its photo row are committed.\<close>

theorem apply_all_or_nothing_witness:
  "(InsertDocument ''photo'', False) \<in> set (calls (snd (api_apply (demo_env photo_insert_fails) demo_request (idle demo_db))))
   \<and> committed (snd (api_apply (demo_env photo_insert_fails) demo_request (idle demo_db))) = demo_db
   \<and> tx (snd (api_apply (demo_env photo_insert_fails) demo_request (idle demo_db))) = None
   \<and> applied (fst (api_apply (demo_env no_faults) demo_request
         (snd (api_apply (demo_env photo_insert_fails) demo_request (idle demo_db))))) 4
   \<and> applied (fst (api_apply (demo_env no_faults) demo_request (idle demo_db))) 4
   \<and> (\<exists>row docs. app_id row = 4 \<and>
         applications (committed (snd (api_apply (demo_env no_faults) demo_request (idle demo_db)))) =
           applications demo_db @ [row] \<and>
         documents (committed (snd (api_apply (demo_env no_faults) demo_request (idle demo_db)))) =
           documents demo_db @ docs \<and>
         map (\<lambda>r. (application_id r, doc_type r, doc_filename r)) docs = [(4, ''photo'', ''3f2a9c'')])"
proof -
  let ?bad = "api_apply (demo_env photo_insert_fails) demo_request (idle demo_db)"
  let ?good = "api_apply (demo_env no_faults) demo_request (idle demo_db)"
  have failed: "(InsertDocument ''photo'', False) \<in> set (calls (snd ?bad))"
    by (simp add: demo_bad_run)
  have rolled: "(Rollback, False) \<notin> set (calls (snd ?bad))"
    by (simp add: demo_bad_run)
  have ok: "applied (fst ?good) 4"
    by (rule demo_good_run)
  have up: "map (\<lambda>f. (4::nat, fieldname f, filename f)) (uploaded (files demo_request)) = [(4, ''photo'', ''3f2a9c'')]"
    by (simp add: demo_request_def demo_photo_def)
  note bad = apply_all_or_nothing[of "demo_env photo_insert_fails" demo_request demo_db "fst ?bad" "snd ?bad" 0]
  from bad failed have c: "committed (snd ?bad) = demo_db" by auto
  from bad rolled have t: "tx (snd ?bad) = None"
    and next_request: "\<forall>e2 req2.
        fst (api_apply e2 req2 (snd ?bad)) = fst (api_apply e2 req2 (idle (committed (snd ?bad))))"
    by auto
  from next_request c ok
  have after: "applied (fst (api_apply (demo_env no_faults) demo_request (snd ?bad))) 4"
    by simp
  from apply_all_or_nothing[of "demo_env no_faults" demo_request demo_db "fst ?good" "snd ?good" 4] ok
  have "\<exists>row docs. app_id row = 4 \<and>
         applications (committed (snd ?good)) = applications demo_db @ [row] \<and>
         documents (committed (snd ?good)) = documents demo_db @ docs \<and>
         map (\<lambda>r. (application_id r, doc_type r, doc_filename r)) docs = [(4, ''photo'', ''3f2a9c'')]"
    unfolding up by simp
  with c t after show ?thesis using failed ok by blast
qed

lemma demo_zero_run:
  "applied (fst (api_apply (demo_env no_faults) \<lparr>body_data = Some zero_text, files = None\<rparr> (idle demo_db))) 4"
  "amount_applied (last (applications (committed (snd (api_apply (demo_env no_faults)
      \<lparr>body_data = Some zero_text, files = None\<rparr> (idle demo_db)))))) = JNull"
  by (simp_all add: apply_eval demo_eval)

text \<open>Counterexample to C6 as stated. A payload whose amount_applied is the number 0
  is applied with success and stored with a NULL amount, although the field is present
  and holds a well-formed number.\<close>

theorem apply_amount_counterexample:
  "get_prop zero_payload ''amount_applied'' = Some (JNum 0)
   \<and> JSON_parse (demo_env no_faults) zero_text = Some zero_payload
   \<and> applied (fst (api_apply (demo_env no_faults) \<lparr>body_data = Some zero_text, files = None\<rparr> (idle demo_db))) 4
   \<and> amount_applied (last (applications (committed (snd (api_apply (demo_env no_faults)
         \<lparr>body_data = Some zero_text, files = None\<rparr> (idle demo_db)))))) = JNull"
  using demo_zero_run
  by (simp add: zero_payload_def demo_env_def demo_parse_def demo_text_def zero_text_def)

text \<open>Witness of C6 (amended): the payload with amount 5000.\<close>

theorem apply_stores_amount_witness:
  "applied (fst (api_apply (demo_env no_faults) demo_request (idle demo_db))) 4
   \<and> (\<exists>row. applications (committed (snd (api_apply (demo_env no_faults) demo_request (idle demo_db)))) =
           applications demo_db @ [row] \<and> app_id row = 4 \<and> amount_applied row = JNum 5000 \<and>
           data_json row = demo_text \<and> app_status row = Pending)"
proof -
  let ?good = "api_apply (demo_env no_faults) demo_request (idle demo_db)"
  have ok: "applied (fst ?good) 4" by (rule demo_good_run)
  have p: "JSON_parse (demo_env no_faults) demo_text = Some demo_payload"
    by (simp add: demo_env_def demo_parse_def)
  have a: "get_prop demo_payload ''amount_applied'' = Some (JNum 5000)"
    by (simp add: demo_payload_def)
  have s: "JSON_stringify (demo_env no_faults) demo_payload = demo_text"
    by (simp add: demo_env_def demo_stringify_def)
  from apply_stores_amount[of "demo_env no_faults" demo_request demo_db "fst ?good" "snd ?good" 4] ok
  obtain t data row where
    "body_data demo_request = Some t" "JSON_parse (demo_env no_faults) t = Some data"
    "applications (committed (snd ?good)) = applications demo_db @ [row]" "app_id row = 4"
    "\<forall>x. get_prop data ''amount_applied'' = Some (JNum x) \<and> x \<noteq> 0 \<longrightarrow>
              amount_applied row = JNum x"
    "data_json row = JSON_stringify (demo_env no_faults) data" "app_status row = Pending"
    by auto
  moreover from this(1,2) p have "data = demo_payload" by (simp add: demo_request_def)
  ultimately show ?thesis using ok a s by auto
qed

text \<open>Witness of C9: the calls of a run whose photo insert is rejected, and of a run
  without fault.\<close>

theorem apply_releases_connection_witness:
  "held (snd (api_apply (demo_env photo_insert_fails) demo_request (idle demo_db))) = 0
   \<and> calls (snd (api_apply (demo_env photo_insert_fails) demo_request (idle demo_db))) =
       [(GetConnection, True), (BeginTransaction, True), (InsertApplication, True),
        (InsertDocument ''photo'', False), (Rollback, True), (Release, True)]
   \<and> tx (snd (api_apply (demo_env photo_insert_fails) demo_request (idle demo_db))) = None
   \<and> held (snd (api_apply (demo_env no_faults) demo_request (idle demo_db))) = 0
   \<and> calls (snd (api_apply (demo_env no_faults) demo_request (idle demo_db))) =
       [(GetConnection, True), (BeginTransaction, True), (InsertApplication, True),
        (InsertDocument ''photo'', True), (Commit, True), (Release, True)]"
proof -
  let ?bad = "api_apply (demo_env photo_insert_fails) demo_request (idle demo_db)"
  let ?good = "api_apply (demo_env no_faults) demo_request (idle demo_db)"
  from apply_releases_connection[of "demo_env photo_insert_fails" demo_request "idle demo_db" "fst ?bad" "snd ?bad"]
  have "held (snd ?bad) = held (idle demo_db)" by simp
  moreover from apply_releases_connection[of "demo_env no_faults" demo_request "idle demo_db" "fst ?good" "snd ?good"]
  have "held (snd ?good) = held (idle demo_db)" by simp
  moreover have "held (idle demo_db) = 0" by (simp add: idle_def)
  ultimately show ?thesis
    using demo_good_run(2) by (simp add: demo_bad_run)
qed

text \<open>Witness of C5: a text that is no JSON, the text null, a payload without user_id
  and a request without data.\<close>

theorem apply_rejects_invalid_before_store_witness:
  "api_apply (demo_env no_faults) \<lparr>body_data = Some ''{oops'', files = None\<rparr> (idle demo_db) =
     (Sent (Response 500 (Error ''Server error'')), idle demo_db)
   \<and> api_apply (demo_env no_faults) \<lparr>body_data = Some ''null'', files = None\<rparr> (idle demo_db) =
     (Sent (Response 500 (Error ''Server error'')), idle demo_db)
   \<and> api_apply (demo_env no_faults) \<lparr>body_data = Some no_user_text, files = None\<rparr> (idle demo_db) =
     (Sent (Response 400 (Error ''Missing user_id or scheme_id'')), idle demo_db)
   \<and> api_apply (demo_env no_faults) \<lparr>body_data = None, files = None\<rparr> (idle demo_db) =
     (Sent (Response 400 (Error ''Missing user_id or scheme_id'')), idle demo_db)"
proof -
  have p1: "JSON_parse (demo_env no_faults) ''{oops'' = None"
    and p2: "JSON_parse (demo_env no_faults) ''null'' = Some JNull"
    and p3: "JSON_parse (demo_env no_faults) no_user_text = Some (JObj [(''scheme_id'', JNum 2)])"
    by (simp_all add: demo_env_def demo_parse_def demo_text_def zero_text_def no_user_text_def)
  have m: "missing_reference (JObj [(''scheme_id'', JNum 2)])"
    by (simp add: missing_reference_def)
  have n: "no_user_text \<noteq> []" by (simp add: no_user_text_def)
  from apply_rejects_invalid_before_store[of "\<lparr>body_data = Some ''{oops'', files = None\<rparr>" "''{oops''" "demo_env no_faults" "idle demo_db" JNull] p1
  have "api_apply (demo_env no_faults) \<lparr>body_data = Some ''{oops'', files = None\<rparr> (idle demo_db) =
     (Sent (Response 500 (Error ''Server error'')), idle demo_db)" by simp
  moreover
  from apply_rejects_invalid_before_store[of "\<lparr>body_data = Some ''null'', files = None\<rparr>" "''null''" "demo_env no_faults" "idle demo_db" JNull] p2
  have "api_apply (demo_env no_faults) \<lparr>body_data = Some ''null'', files = None\<rparr> (idle demo_db) =
     (Sent (Response 500 (Error ''Server error'')), idle demo_db)" by simp
  moreover
  from apply_rejects_invalid_before_store[of "\<lparr>body_data = Some no_user_text, files = None\<rparr>" no_user_text "demo_env no_faults" "idle demo_db" "JObj [(''scheme_id'', JNum 2)]"] p3 m n
  have "api_apply (demo_env no_faults) \<lparr>body_data = Some no_user_text, files = None\<rparr> (idle demo_db) =
     (Sent (Response 400 (Error ''Missing user_id or scheme_id'')), idle demo_db)" by simp
  moreover
  from apply_rejects_invalid_before_store[of "\<lparr>body_data = None, files = None\<rparr>" "[]" "demo_env no_faults" "idle demo_db" JNull]
  have "api_apply (demo_env no_faults) \<lparr>body_data = None, files = None\<rparr> (idle demo_db) =
     (Sent (Response 400 (Error ''Missing user_id or scheme_id'')), idle demo_db)" by simp
  ultimately show ?thesis by blast
qed

text \<open>Witness of C10: one photo uploaded.\<close>

theorem apply_documents_at_most_two_witness:
  "applyUpload [demo_photo] = Inr \<lparr>photo = Some [demo_photo], mark10 = None\<rparr>
   \<and> applied (fst (api_apply (demo_env no_faults) demo_request (idle demo_db))) 4
   \<and> (\<exists>docs. documents (committed (snd (api_apply (demo_env no_faults) demo_request (idle demo_db)))) =
          documents demo_db @ docs \<and> length docs \<le> 2 \<and>
          map (\<lambda>r. (application_id r, doc_type r, doc_filename r)) docs = [(4, ''photo'', ''3f2a9c'')] \<and>
          length (filter (\<lambda>r. doc_type r = ''photo'') docs) \<le> 1 \<and>
          length (filter (\<lambda>r. doc_type r = ''mark10'') docs) \<le> 1)"
proof -
  let ?good = "api_apply (demo_env no_faults) demo_request (idle demo_db)"
  have ok: "applied (fst ?good) 4" by (rule demo_good_run)
  have au: "applyUpload [demo_photo] = Inr \<lparr>photo = Some [demo_photo], mark10 = None\<rparr>"
    by (simp add: applyUpload_def demo_photo_def)
  have fr: "files demo_request = Some \<lparr>photo = Some [demo_photo], mark10 = None\<rparr>"
    by (simp add: demo_request_def)
  have up: "map (\<lambda>f. (4::nat, fieldname f, filename f)) (uploaded (files demo_request)) = [(4, ''photo'', ''3f2a9c'')]"
    by (simp add: demo_request_def demo_photo_def)
  from apply_documents_at_most_two[of "demo_env no_faults" demo_request demo_db "fst ?good" "snd ?good" 4] ok
  obtain docs where d: "documents (committed (snd ?good)) = documents demo_db @ docs" "length docs \<le> 2"
    "map (\<lambda>r. (application_id r, doc_type r, doc_filename r)) docs =
       map (\<lambda>f. (4, fieldname f, filename f)) (uploaded (files demo_request))"
    and all: "\<forall>parts u. applyUpload parts = Inr u \<and> files demo_request = Some u \<longrightarrow>
              length (filter (\<lambda>r. doc_type r = ''photo'') docs) \<le> 1 \<and>
              length (filter (\<lambda>r. doc_type r = ''mark10'') docs) \<le> 1 \<and>
              (\<forall>r \<in> set docs. (doc_type r = ''photo'' \<or> doc_type r = ''mark10'') \<and>
                 (\<exists>f \<in> set parts. doc_type r = fieldname f \<and> doc_filename r = filename f))"
    by auto
  from all au fr have "length (filter (\<lambda>r. doc_type r = ''photo'') docs) \<le> 1 \<and>
              length (filter (\<lambda>r. doc_type r = ''mark10'') docs) \<le> 1" by blast
  with d up au ok show ?thesis by auto
qed

section \<open>Properties of the status transitions\<close>

lemma update_status_absent:
  "i \<notin> set (map app_id (applications d)) \<Longrightarrow> update_status st i d = d"
proof -
  assume "i \<notin> set (map app_id (applications d))"
  then have "map (\<lambda>a. if app_id a = i then a\<lparr>app_status := st\<rparr> else a) (applications d) = applications d"
    by (intro map_idI) auto
  then show ?thesis by (simp add: update_status_def)
qed

lemma update_status_sets:
  assumes "a \<in> set (applications (update_status st i d))" and "app_id a = i"
  shows "app_status a = st"
proof -
  from assms(1) have "a \<in> (\<lambda>a. if app_id a = i then a\<lparr>app_status := st\<rparr> else a) ` set (applications d)"
    by (simp add: update_status_def)
  then obtain x where x: "a = (if app_id x = i then x\<lparr>app_status := st\<rparr> else x)"
    by (rule imageE)
  show ?thesis
  proof (cases "app_id x = i")
    case True
    with x show ?thesis by simp
  next
    case False
    with x assms(2) show ?thesis by simp
  qed
qed

lemma update_status_nth:
  assumes "k < length (applications d)"
  shows "applications (update_status st i d) ! k =
           (if app_id (applications d ! k) = i then (applications d ! k)\<lparr>app_status := st\<rparr>
            else applications d ! k)"
  using assms by (simp add: update_status_def)

lemma update_status_frame:
  "users (update_status st i d) = users d" "schemes (update_status st i d) = schemes d"
  "documents (update_status st i d) = documents d"
  "length (applications (update_status st i d)) = length (applications d)"
  by (simp_all add: update_status_def)

text \<open>C4. When the store accepts the statement, approve and reject each run the one
  UPDATE and answer with the same acknowledgment whatever the id and whatever the
  tables hold. The UPDATE keeps every row of every table in its place: users, schemes
  and documents are untouched, the applications are as many as before, an application
  with another id is unchanged, and an application with that id is the same row with
  its status set to Approved (respectively Rejected), whatever its status was. An id
  that no application has leaves the tables as they were and is acknowledged all the
  same.\<close>

theorem status_update_unconditional:
  assumes "\<not> rejects e UpdateStatus"
  shows "api_approve e i d =
           (Response 200 (Ack ''Trigger fired (if status changed)''), update_status Approved i d)
       \<and> api_reject e i d =
           (Response 200 (Ack ''Trigger fired (if status changed)''), update_status Rejected i d)
       \<and> fst (api_approve e i d) = fst (api_approve e j d')
       \<and> fst (api_reject e i d) = fst (api_reject e j d')
       \<and> (i \<notin> set (map app_id (applications d)) \<longrightarrow>
            snd (api_approve e i d) = d \<and> snd (api_reject e i d) = d)
       \<and> (\<forall>a \<in> set (applications (snd (api_approve e i d))). app_id a = i \<longrightarrow> app_status a = Approved)
       \<and> (\<forall>a \<in> set (applications (snd (api_reject e i d))). app_id a = i \<longrightarrow> app_status a = Rejected)
       \<and> users (snd (api_approve e i d)) = users d \<and> users (snd (api_reject e i d)) = users d
       \<and> schemes (snd (api_approve e i d)) = schemes d \<and> schemes (snd (api_reject e i d)) = schemes d
       \<and> documents (snd (api_approve e i d)) = documents d
       \<and> documents (snd (api_reject e i d)) = documents d
       \<and> length (applications (snd (api_approve e i d))) = length (applications d)
       \<and> length (applications (snd (api_reject e i d))) = length (applications d)
       \<and> (\<forall>k < length (applications d).
             applications (snd (api_approve e i d)) ! k =
               (if app_id (applications d ! k) = i
                then (applications d ! k)\<lparr>app_status := Approved\<rparr>
                else applications d ! k))
       \<and> (\<forall>k < length (applications d).
             applications (snd (api_reject e i d)) ! k =
               (if app_id (applications d ! k) = i
                then (applications d ! k)\<lparr>app_status := Rejected\<rparr>
                else applications d ! k))"
proof -
  from assms have a: "api_approve e i d = (trigger_fired, update_status Approved i d)"
    and r: "api_reject e i d = (trigger_fired, update_status Rejected i d)"
    and a': "fst (api_approve e j d') = trigger_fired" and r': "fst (api_reject e j d') = trigger_fired"
    by (simp_all add: api_approve_def api_reject_def)
  have z: "update_status st i d = d" if "i \<notin> set (map app_id (applications d))" for st
    using that by (rule update_status_absent)
  have s: "app_status x = st" if "x \<in> set (applications (update_status st i d))" "app_id x = i" for x st
    using that by (rule update_status_sets)
  have n: "applications (update_status st i d) ! k =
           (if app_id (applications d ! k) = i then (applications d ! k)\<lparr>app_status := st\<rparr>
            else applications d ! k)" if "k < length (applications d)" for k st
    using that by (rule update_status_nth)
  have old: "api_approve e i d =
           (Response 200 (Ack ''Trigger fired (if status changed)''), update_status Approved i d)
       \<and> api_reject e i d =
           (Response 200 (Ack ''Trigger fired (if status changed)''), update_status Rejected i d)
       \<and> fst (api_approve e i d) = fst (api_approve e j d')
       \<and> fst (api_reject e i d) = fst (api_reject e j d')
       \<and> (i \<notin> set (map app_id (applications d)) \<longrightarrow>
            snd (api_approve e i d) = d \<and> snd (api_reject e i d) = d)
       \<and> (\<forall>a \<in> set (applications (snd (api_approve e i d))). app_id a = i \<longrightarrow> app_status a = Approved)
       \<and> (\<forall>a \<in> set (applications (snd (api_reject e i d))). app_id a = i \<longrightarrow> app_status a = Rejected)"
    using z s unfolding a r a' r' by (auto simp: trigger_fired_def)
  have frame: "users (snd (api_approve e i d)) = users d \<and> users (snd (api_reject e i d)) = users d
       \<and> schemes (snd (api_approve e i d)) = schemes d \<and> schemes (snd (api_reject e i d)) = schemes d
       \<and> documents (snd (api_approve e i d)) = documents d
       \<and> documents (snd (api_reject e i d)) = documents d
       \<and> length (applications (snd (api_approve e i d))) = length (applications d)
       \<and> length (applications (snd (api_reject e i d))) = length (applications d)"
    unfolding a r by (simp add: update_status_frame)
  have rows: "(\<forall>k < length (applications d).
             applications (snd (api_approve e i d)) ! k =
               (if app_id (applications d ! k) = i
                then (applications d ! k)\<lparr>app_status := Approved\<rparr>
                else applications d ! k))
       \<and> (\<forall>k < length (applications d).
             applications (snd (api_reject e i d)) ! k =
               (if app_id (applications d ! k) = i
                then (applications d ! k)\<lparr>app_status := Rejected\<rparr>
                else applications d ! k))"
    unfolding a r snd_conv using n by blast
  from old frame rows show ?thesis by blast
qed

section \<open>Properties of registration\<close>

lemma fold_max_ge: "a \<le> fold max ids (a::nat)"
  by (induction ids arbitrary: a) (auto intro: order_trans[OF max.cobounded2])

lemma fold_max_mem: "x \<in> set ids \<Longrightarrow> x \<le> fold max ids (a::nat)"
proof (induction ids arbitrary: a)
  case Nil
  then show ?case by simp
next
  case (Cons y ys)
  show ?case
  proof (cases "x = y")
    case True
    have "y \<le> max y a" by simp
    also have "\<dots> \<le> fold max ys (max y a)" by (rule fold_max_ge)
    finally show ?thesis using True by simp
  next
    case False
    with Cons.prems have "x \<in> set ys" by simp
    from Cons.IH[OF this] show ?thesis by simp
  qed
qed

lemma fresh_id_new: "fresh_id ids \<notin> set ids"
proof
  assume "fresh_id ids \<in> set ids"
  from fold_max_mem[OF this, of 0] show False by (simp add: fresh_id_def)
qed

lemma select_user_None: "select_user_by_email em d = None \<longleftrightarrow> registered em d = []"
  by (auto simp: select_user_by_email_def registered_def find_None_iff filter_empty_conv)

lemma required_fields_cases:
  "required_fields b \<longleftrightarrow>
     (\<exists>nm em pw. body_name b = Some nm \<and> body_email b = Some em \<and> body_password b = Some pw \<and>
        nm \<noteq> [] \<and> em \<noteq> [] \<and> pw \<noteq> [])"
  unfolding required_fields_def
  by (cases "body_name b"; cases "body_email b"; cases "body_password b") auto

lemma register_conflict:
  assumes "required_fields b" and "body_email b = Some em" and "registered em d \<noteq> []"
    and "\<not> rejects e SelectUserByEmail"
  shows "api_register e b d = (Response 409 (Error ''Email already registered''), d)"
proof -
  from assms(1,2) obtain nm pw where f: "body_name b = Some nm" "body_password b = Some pw"
    "nm \<noteq> []" "em \<noteq> []" "pw \<noteq> []"
    by (auto simp: required_fields_cases)
  from assms(3) obtain u where "select_user_by_email em d = Some u"
    using select_user_None[of em d] by (cases "select_user_by_email em d") auto
  with f assms(2,4) show ?thesis by (simp add: api_register_def)
qed

lemma register_keeps_registered:
  assumes "registered em d \<noteq> []"
  shows "registered em (snd (api_register e b d)) = registered em d"
proof (cases "body_email b = Some em")
  case True
  from assms obtain u where "select_user_by_email em d = Some u"
    using select_user_None[of em d] by (cases "select_user_by_email em d") auto
  with True show ?thesis
    by (auto simp: api_register_def missing_fields_def registration_failed_def
          split: option.splits)
next
  case False
  then show ?thesis
    by (auto simp: api_register_def registered_def Let_def split: option.splits)
qed

lemma transaction_users:
  "tx s = None \<Longrightarrow> transaction e req data s = (r, s') \<Longrightarrow> users (committed s') = users (committed s)"
  unfolding transaction_def insert_documents_def insert_first_def prim_defs
  by (auto simp: Let_def split: if_splits option.splits list.splits prod.splits sum.splits)

lemma api_apply_users: "users (committed (snd (api_apply e req (idle d)))) = users d"
proof -
  have "users (committed s') = users d"
    if "transaction e req data ((logged GetConnection True (idle d))\<lparr>held := Suc (held (idle d))\<rparr>) = (r, s')"
    for data r s'
    using transaction_users[OF _ that] by (simp add: idle_def logged_def)
  then show ?thesis
    by (auto simp: api_apply_def getConnection_def catch_with_connection_def rollback_def
          release_def logged_def idle_def
        split: sum.splits option.splits prod.splits if_splits)
qed

lemma handle_keeps_registered:
  "registered em d \<noteq> [] \<Longrightarrow> registered em (handle e r d) = registered em d"
proof (cases r)
  case (Register b)
  assume "registered em d \<noteq> []"
  from register_keeps_registered[OF this] Register show ?thesis by simp
next
  case (Apply a)
  then show ?thesis using api_apply_users[of e a d] by (simp add: registered_def)
next
  case (Approve i)
  then show ?thesis by (simp add: registered_def api_approve_def update_status_def)
next
  case (Reject i)
  then show ?thesis by (simp add: registered_def api_reject_def update_status_def)
qed

lemma serve_keeps_registered:
  "registered em d \<noteq> [] \<Longrightarrow> registered em (serve rs d) = registered em d"
proof (induction rs arbitrary: d)
  case Nil
  then show ?case by simp
next
  case (Cons x rs)
  obtain e r where x: "x = (e, r)" by (cases x)
  from handle_keeps_registered[OF Cons.prems, of e r] Cons.prems
  have "registered em (handle e r d) \<noteq> []" by simp
  from Cons.IH[OF this] handle_keeps_registered[OF Cons.prems, of e r] x show ?case by simp
qed

text \<open>C8. A registration with the required fields and an email no user has, on a
  store and a hash that do not fail, adds exactly one user with that email and answers
  with the new user's id, which no earlier user has. After any later sequence of
  register, apply, approve and reject requests, whatever fails in them, that user is
  still the only one with the email, and every registration that carries the required
  fields and this email is answered 409 and changes nothing, as long as its lookup
  reaches the store.\<close>

theorem register_once:
  assumes "required_fields b" and "body_email b = Some em" and "body_password b = Some pw"
    and "registered em d = []"
    and "\<not> rejects e SelectUserByEmail" and "\<not> rejects e InsertUser"
    and "bcrypt_hash e pw = Some h"
  shows "\<exists>u. api_register e b d =
               (Response 200 (RegisterSuccess (user_id u)), d\<lparr>users := users d @ [u]\<rparr>) \<and>
             email u = em \<and> user_id u \<notin> set (map user_id (users d)) \<and>
             (\<forall>rs. registered em (serve rs (snd (api_register e b d))) = [u]) \<and>
             (\<forall>rs e' b'. required_fields b' \<and> body_email b' = Some em \<and>
                 \<not> rejects e' SelectUserByEmail \<longrightarrow>
                 api_register e' b' (serve rs (snd (api_register e b d))) =
                   (Response 409 (Error ''Email already registered''),
                    serve rs (snd (api_register e b d))))"
proof -
  from assms(1,2,3) obtain nm where f: "body_name b = Some nm" "nm \<noteq> []" "em \<noteq> []" "pw \<noteq> []"
    by (auto simp: required_fields_cases)
  define u where "u = \<lparr>user_id = fresh_id (map user_id (users d)), name = nm, email = em,
      password_hash = h, age = validatedAge e (body_age b),
      gender = validatedGender (body_gender b), role = ''user''\<rparr>"
  from assms(4) have none: "select_user_by_email em d = None" by (simp add: select_user_None)
  from f assms(2,3,5,6,7) none
  have reg: "api_register e b d =
               (Response 200 (RegisterSuccess (user_id u)), d\<lparr>users := users d @ [u]\<rparr>)"
    by (simp add: api_register_def u_def Let_def)
  have em: "email u = em" by (simp add: u_def)
  have new: "user_id u \<notin> set (map user_id (users d))"
    using fresh_id_new[of "map user_id (users d)"] by (simp add: u_def)
  have one: "registered em (snd (api_register e b d)) = [u]"
    using assms(4) by (simp add: reg registered_def em)
  then have ne: "registered em (snd (api_register e b d)) \<noteq> []" by simp
  have later: "registered em (serve rs (snd (api_register e b d))) = [u]" for rs
    using serve_keeps_registered[OF ne, of rs] one by simp
  have conflict: "api_register e' b' (serve rs (snd (api_register e b d))) =
                   (Response 409 (Error ''Email already registered''),
                    serve rs (snd (api_register e b d)))"
    if "required_fields b'" "body_email b' = Some em" "\<not> rejects e' SelectUserByEmail" for rs e' b'
    using register_conflict[OF that(1,2) _ that(3), of "serve rs (snd (api_register e b d))"] later[of rs]
    by simp
  from reg em new later conflict show ?thesis by blast
qed

subsection \<open>Status transitions and registration on concrete requests\<close>

lemma demo_db_users:
  "registered ''ravi@example.org'' demo_db = []"
  by (simp add: registered_def demo_db_def asha_def)

lemma demo_db_applications: "applications demo_db = [newer, decided, older]"
  by (simp add: demo_db_def)

text \<open>Witness of C4: approving application 1, which is pending, sets its status and
  leaves the two other applications as they were; rejecting application 3 overwrites
  its earlier approval; no application has id 5, yet approving it is acknowledged and
  changes nothing.\<close>

theorem status_update_unconditional_witness:
  "fst (api_approve (demo_env no_faults) 1 demo_db) =
     Response 200 (Ack ''Trigger fired (if status changed)'')
   \<and> applications (snd (api_approve (demo_env no_faults) 1 demo_db)) ! 0 = newer
   \<and> applications (snd (api_approve (demo_env no_faults) 1 demo_db)) ! 1 = decided
   \<and> applications (snd (api_approve (demo_env no_faults) 1 demo_db)) ! 2 =
       older\<lparr>app_status := Approved\<rparr>
   \<and> app_status older = Pending
   \<and> applications (snd (api_reject (demo_env no_faults) 3 demo_db)) ! 1 =
       decided\<lparr>app_status := Rejected\<rparr>
   \<and> app_status decided = Approved
   \<and> api_approve (demo_env no_faults) 5 demo_db =
       (Response 200 (Ack ''Trigger fired (if status changed)''), demo_db)"
proof -
  have ok: "\<not> rejects (demo_env no_faults) UpdateStatus"
    by (simp add: demo_env_def no_faults_def)
  have absent: "5 \<notin> set (map app_id (applications demo_db))"
    by (simp add: demo_db_tables)
  have ids: "app_id newer = 2" "app_id decided = 3" "app_id older = 1"
    "app_status older = Pending" "app_status decided = Approved"
    by (simp_all add: newer_def decided_def older_def)
  note t1 = status_update_unconditional[OF ok, of 1 demo_db 1 demo_db]
  note t3 = status_update_unconditional[OF ok, of 3 demo_db 3 demo_db]
  note t5 = status_update_unconditional[OF ok, of 5 demo_db 5 demo_db]
  from t1 have a1: "fst (api_approve (demo_env no_faults) 1 demo_db) =
     Response 200 (Ack ''Trigger fired (if status changed)'')" by simp
  from t1 have n1: "\<forall>k < length (applications demo_db).
             applications (snd (api_approve (demo_env no_faults) 1 demo_db)) ! k =
               (if app_id (applications demo_db ! k) = 1
                then (applications demo_db ! k)\<lparr>app_status := Approved\<rparr>
                else applications demo_db ! k)" by blast
  from t3 have n3: "\<forall>k < length (applications demo_db).
             applications (snd (api_reject (demo_env no_faults) 3 demo_db)) ! k =
               (if app_id (applications demo_db ! k) = 3
                then (applications demo_db ! k)\<lparr>app_status := Rejected\<rparr>
                else applications demo_db ! k)" by blast
  from t5 absent have a5: "api_approve (demo_env no_faults) 5 demo_db =
       (Response 200 (Ack ''Trigger fired (if status changed)''), demo_db)"
    by (metis snd_conv)
  from n1[rule_format, of 0] n1[rule_format, of 1] n1[rule_format, of 2] n3[rule_format, of 1]
  have "applications (snd (api_approve (demo_env no_faults) 1 demo_db)) ! 0 = newer"
    "applications (snd (api_approve (demo_env no_faults) 1 demo_db)) ! 1 = decided"
    "applications (snd (api_approve (demo_env no_faults) 1 demo_db)) ! 2 = older\<lparr>app_status := Approved\<rparr>"
    "applications (snd (api_reject (demo_env no_faults) 3 demo_db)) ! 1 = decided\<lparr>app_status := Rejected\<rparr>"
    by (simp_all add: demo_db_applications ids)
  with a1 a5 ids show ?thesis by simp
qed

text \<open>Witness of C8: a new email is registered once; the same registration again,
  and after further requests, meets the conflict.\<close>

theorem register_once_witness:
  "\<exists>u. api_register (demo_env no_faults) demo_registration demo_db =
          (Response 200 (RegisterSuccess (user_id u)), demo_db\<lparr>users := users demo_db @ [u]\<rparr>)
       \<and> email u = ''ravi@example.org''
       \<and> api_register (demo_env photo_insert_fails) demo_registration
            (snd (api_register (demo_env no_faults) demo_registration demo_db)) =
          (Response 409 (Error ''Email already registered''),
           snd (api_register (demo_env no_faults) demo_registration demo_db))
       \<and> registered ''ravi@example.org''
            (serve [(demo_env no_faults, Register demo_registration),
                    (demo_env no_faults, Apply demo_request)]
               (snd (api_register (demo_env no_faults) demo_registration demo_db))) = [u]"
proof -
  have r: "required_fields demo_registration"
    and em: "body_email demo_registration = Some ''ravi@example.org''"
    and pw: "body_password demo_registration = Some ''secret''"
    by (simp_all add: required_fields_def demo_registration_def)
  have s: "\<not> rejects (demo_env no_faults) SelectUserByEmail"
    and i: "\<not> rejects (demo_env no_faults) InsertUser"
    and h: "bcrypt_hash (demo_env no_faults) ''secret'' = Some ''$2a$10$secret''"
    and s': "\<not> rejects (demo_env photo_insert_fails) SelectUserByEmail"
    by (simp_all add: demo_env_def no_faults_def photo_insert_fails_def)
  from register_once[OF r em pw demo_db_users s i h] obtain u where
    u: "api_register (demo_env no_faults) demo_registration demo_db =
          (Response 200 (RegisterSuccess (user_id u)), demo_db\<lparr>users := users demo_db @ [u]\<rparr>)"
       "email u = ''ravi@example.org''"
    and later: "\<And>rs. registered ''ravi@example.org''
                  (serve rs (snd (api_register (demo_env no_faults) demo_registration demo_db))) = [u]"
    and conflict: "\<And>rs e' b'. required_fields b' \<and> body_email b' = Some ''ravi@example.org'' \<and>
                 \<not> rejects e' SelectUserByEmail \<Longrightarrow>
                 api_register e' b' (serve rs (snd (api_register (demo_env no_faults) demo_registration demo_db))) =
                   (Response 409 (Error ''Email already registered''),
                    serve rs (snd (api_register (demo_env no_faults) demo_registration demo_db)))"
    by blast
  from conflict[of demo_registration "demo_env photo_insert_fails" "[]"] r em s'
  have "api_register (demo_env photo_insert_fails) demo_registration
            (snd (api_register (demo_env no_faults) demo_registration demo_db)) =
          (Response 409 (Error ''Email already registered''),
           snd (api_register (demo_env no_faults) demo_registration demo_db))"
    by simp
  with u later show ?thesis by blast
qed

section \<open>Properties of the scheme listing\<close>

lemma split_on_nonempty: "split_on c s \<noteq> []"
  by (induction s) (auto split: list.splits)

lemma cats_nonempty: "cats e v \<noteq> []"
  by (simp add: cats_def split_on_nonempty)

text \<open>A statement sent with no values is well formed only if it has no placeholder.\<close>

lemma well_formed_no_values:
  "well_formed cs [] \<longleftrightarrow> (\<forall>c \<in> set cs. c = InternationalEligible)"
proof (induction cs)
  case Nil
  then show ?case by simp
next
  case (Cons c cs)
  then show ?case by (cases c) auto
qed

text \<open>The handler of \<^verbatim>\<open>src/server.js\<close> answers 500 as soon as one of q, academic_year,
  type or category is given: each of them adds a placeholder, and no value is sent.\<close>

lemma api_schemes_unbound:
  assumes "truthy_str (q r) \<or> truthy_str (q_academic_year r) \<or> truthy_str (q_type r) \<or>
           truthy_str (q_category r)"
  shows "api_schemes e r d = Response 500 (Error ''Server error'')"
proof -
  from assms have "\<exists>c \<in> set (clauses e r). c \<noteq> InternationalEligible"
    unfolding clauses_def when_given_def
    by (cases "q r"; cases "q_academic_year r"; cases "q_type r"; cases "q_category r")
       (auto split: if_splits)
  then have "\<not> well_formed (clauses e r) []"
    by (simp add: well_formed_no_values)
  then show ?thesis
    by (simp add: api_schemes_def allSql_schemes_def server_error_def)
qed

text \<open>Its answer cannot depend on the values of the filters: two requests that push
  the same clauses are answered alike.\<close>

lemma api_schemes_ignores_values:
  "clauses e r = clauses e r' \<Longrightarrow> api_schemes e r d = api_schemes e r' d"
  by (simp add: api_schemes_def)

text \<open>Only the international flag, whose clause has no placeholder, works there.\<close>

lemma api_schemes_international_only:
  assumes "\<not> truthy_str (q r)" and "\<not> truthy_str (q_academic_year r)" and "\<not> truthy_str (q_type r)"
    and "\<not> truthy_str (q_category r)" and "\<not> rejects e SelectSchemes"
  shows "api_schemes e r d =
           Response 200 (Schemes (sort_key deadline_key (filter (matches_international r) (schemes d))))"
proof -
  from assms(1-4) have c: "clauses e r = (if q_international r = Some ''1'' then [InternationalEligible] else [])"
    unfolding clauses_def when_given_def
    by (cases "q r"; cases "q_academic_year r"; cases "q_type r"; cases "q_category r") auto
  have "holds_where e (clauses e r) [] = matches_international r"
    by (auto simp: c matches_international_def fun_eq_iff)
  moreover have "well_formed (clauses e r) []" by (simp add: c)
  ultimately show ?thesis using assms(5)
    by (simp add: api_schemes_def allSql_schemes_def)
qed

text \<open>C2, on \<^verbatim>\<open>src/server.js\<close>: the request \<^verbatim>\<open>type=Merit&academic_year=2024-25\<close> is
  answered 500 whatever the schemes are, where the specification has it list exactly
  the schemes of that type and year. The corrected handler lists them
  (\<open>api_schemes_corrected_conjunctive\<close> below).\<close>

theorem schemes_type_and_year_server_error:
  "api_schemes e \<lparr>q = None, q_academic_year = Some ''2024-25'', q_type = Some ''Merit'',
                  q_category = None, q_international = None\<rparr> d =
     Response 500 (Error ''Server error'')"
  by (rule api_schemes_unbound) simp

text \<open>C3, on \<^verbatim>\<open>src/server.js\<close>: the request \<^verbatim>\<open>category=General,OBC\<close> is answered 500
  for the same reason, where the specification has it list the schemes of either
  category. The corrected handler lists that union
  (\<open>api_schemes_corrected_category_union\<close> below).\<close>

theorem schemes_category_list_server_error:
  "api_schemes e \<lparr>q = None, q_academic_year = None, q_type = None,
                  q_category = Some ''General,OBC'', q_international = None\<rparr> d =
     Response 500 (Error ''Server error'')"
  by (rule api_schemes_unbound) simp

text \<open>The corrected handler: the statement is well formed, and a scheme satisfies it
  exactly when it passes the filter of every dimension.\<close>

lemma corrected_well_formed: "well_formed (clauses e r) (params_corrected e r)"
  unfolding clauses_def params_corrected_def when_given_def
  by (cases "q r"; cases "q_academic_year r"; cases "q_type r"; cases "q_category r")
     (auto simp: cats_nonempty)

lemma corrected_holds:
  "holds_where e (clauses e r) (params_corrected e r) s \<longleftrightarrow>
     matches_q e r s \<and> matches_academic_year e r s \<and> matches_type e r s \<and> matches_category e r s \<and>
     matches_international r s"
  unfolding clauses_def params_corrected_def when_given_def matches_q_def
    matches_academic_year_def matches_type_def matches_category_def matches_international_def
  by (cases "q r"; cases "q_academic_year r"; cases "q_type r"; cases "q_category r")
     (auto simp: cats_nonempty)

lemma api_schemes_corrected_rows:
  assumes "\<not> rejects e SelectSchemes"
  shows "api_schemes_corrected e r d =
           Response 200 (Schemes (sort_key deadline_key
             (filter (\<lambda>s. matches_q e r s \<and> matches_academic_year e r s \<and> matches_type e r s \<and>
                          matches_category e r s \<and> matches_international r s) (schemes d))))"
proof -
  have "filter (holds_where e (clauses e r) (params_corrected e r)) (schemes d) =
        filter (\<lambda>s. matches_q e r s \<and> matches_academic_year e r s \<and> matches_type e r s \<and>
                     matches_category e r s \<and> matches_international r s) (schemes d)"
    by (rule filter_cong) (simp_all add: corrected_holds)
  with assms corrected_well_formed[of e r] show ?thesis
    by (simp add: api_schemes_corrected_def allSql_schemes_def)
qed

text \<open>On the corrected handler the listing is the intersection of the listings of
  the five one-dimension requests.\<close>

lemma api_schemes_corrected_conjunctive:
  assumes "\<not> rejects e SelectSchemes"
  shows "set (listing (api_schemes_corrected e r d)) =
           set (listing (api_schemes_corrected e (no_filter\<lparr>q := q r\<rparr>) d)) \<inter>
           set (listing (api_schemes_corrected e (no_filter\<lparr>q_academic_year := q_academic_year r\<rparr>) d)) \<inter>
           set (listing (api_schemes_corrected e (no_filter\<lparr>q_type := q_type r\<rparr>) d)) \<inter>
           set (listing (api_schemes_corrected e (no_filter\<lparr>q_category := q_category r\<rparr>) d)) \<inter>
           set (listing (api_schemes_corrected e (no_filter\<lparr>q_international := q_international r\<rparr>) d))"
  unfolding api_schemes_corrected_rows[OF assms]
  by (auto simp: no_filter_def matches_q_def matches_academic_year_def matches_type_def
        matches_category_def matches_international_def)

text \<open>On the corrected handler a category list selects the union over its entries,
  intersected with what the other filters let through.\<close>

lemma api_schemes_corrected_category_union:
  assumes "\<not> rejects e SelectSchemes" and "q_category r = Some v" and "v \<noteq> []"
  shows "set (listing (api_schemes_corrected e r d)) =
           (\<Union>c \<in> set (cats e v). {s \<in> set (schemes d). category s = c}) \<inter>
           set (listing (api_schemes_corrected e (r\<lparr>q_category := None\<rparr>) d))"
  unfolding api_schemes_corrected_rows[OF assms(1)]
  using assms(2,3)
  by (auto simp: matches_q_def matches_academic_year_def matches_type_def
        matches_category_def matches_international_def)

section \<open>Properties of the admin pending list\<close>

lemma left_join_Nil: "left_join on [] ys = []"
  by (simp add: left_join_def)

lemma left_join_Cons:
  "left_join on (x # xs) ys = map (Pair x) (or_null_row (filter (on x) ys)) @ left_join on xs ys"
  by (simp add: left_join_def or_null_row_def split: list.splits)

lemma left_join_append:
  "left_join on (xs @ xs') ys = left_join on xs ys @ left_join on xs' ys"
  by (simp add: left_join_def)

lemma left_join_same_application:
  "left_join (\<lambda>au s. on (fst au) s) (map (Pair a) us) ys =
     concat (map (\<lambda>u. map (Pair (a, u)) (or_null_row (filter (on a) ys))) us)"
  by (induction us) (simp_all add: left_join_Nil left_join_Cons)

lemma insort_key_map:
  "map g (insort_key (\<lambda>x. f (g x)) x xs) = insort_key f (g x) (map g xs)"
  by (induction xs) simp_all

lemma sort_key_map: "map g (sort_key (\<lambda>x. f (g x)) xs) = sort_key f (map g xs)"
  by (induction xs) (simp_all add: insort_key_map)

text \<open>The rows of one application in the double join, selected.\<close>

lemma rows_of_join:
  "map select_row
     (left_join (\<lambda>au s. sql_ref_eq e (app_scheme_id (fst au)) (scheme_id s))
        (map (Pair a) (or_null_row (filter (\<lambda>u. sql_ref_eq e (app_user_id a) (user_id u)) (users d))))
        (schemes d)) = rows_of e d a"
  unfolding left_join_same_application[where on = "\<lambda>a s. sql_ref_eq e (app_scheme_id a) (scheme_id s)"]
  by (simp add: rows_of_def map_concat comp_def)

lemma rows_of_status: "r \<in> set (rows_of e d a) \<Longrightarrow> row_status r = app_status a"
  by (auto simp: rows_of_def select_row_def)

lemma rows_of_id: "r \<in> set (rows_of e d a) \<Longrightarrow> row_id r = app_id a \<and> row_application_date r = application_date a"
  by (auto simp: rows_of_def select_row_def)

lemma or_null_row_nonempty: "or_null_row ms \<noteq> []"
  by (cases ms) (simp_all add: or_null_row_def)

lemma rows_of_nonempty: "rows_of e d a \<noteq> []"
  using or_null_row_nonempty[of "filter (\<lambda>u. sql_ref_eq e (app_user_id a) (user_id u)) (users d)"]
    or_null_row_nonempty[of "filter (\<lambda>s. sql_ref_eq e (app_scheme_id a) (scheme_id s)) (schemes d)"]
  by (cases "or_null_row (filter (\<lambda>u. sql_ref_eq e (app_user_id a) (user_id u)) (users d))";
      cases "or_null_row (filter (\<lambda>s. sql_ref_eq e (app_scheme_id a) (scheme_id s)) (schemes d))")
     (simp_all add: rows_of_def)

lemma pending_join:
  "map select_row
     (filter (\<lambda>r. app_status (fst (fst r)) = Pending)
        (left_join (\<lambda>au s. sql_ref_eq e (app_scheme_id (fst au)) (scheme_id s))
           (left_join (\<lambda>a u. sql_ref_eq e (app_user_id a) (user_id u)) apps (users d))
           (schemes d))) =
   concat (map (rows_of e d) (filter (\<lambda>a. app_status a = Pending) apps))"
proof (induction apps)
  case Nil
  then show ?case by (simp add: left_join_Nil)
next
  case (Cons a apps)
  let ?on2 = "\<lambda>au s. sql_ref_eq e (app_scheme_id (fst au)) (scheme_id s)"
  let ?us = "or_null_row (filter (\<lambda>u. sql_ref_eq e (app_user_id a) (user_id u)) (users d))"
  let ?mine = "left_join ?on2 (map (Pair a) ?us) (schemes d)"
  have fst_a: "fst (fst r) = a" if "r \<in> set ?mine" for r
    using that unfolding left_join_same_application[where on = "\<lambda>a s. sql_ref_eq e (app_scheme_id a) (scheme_id s)"]
    by auto
  have "filter (\<lambda>r. app_status (fst (fst r)) = Pending) ?mine =
        (if app_status a = Pending then ?mine else [])"
    using fst_a by (auto simp: filter_empty_conv intro: filter_True)
  then have "map select_row (filter (\<lambda>r. app_status (fst (fst r)) = Pending) ?mine) =
        (if app_status a = Pending then rows_of e d a else [])"
    by (simp add: rows_of_join)
  with Cons.IH show ?case
    by (simp add: left_join_Cons left_join_append)
qed

lemma pending_rows_eq:
  "pending_rows e d =
     sort_key row_application_date
       (concat (map (rows_of e d) (filter (\<lambda>a. app_status a = Pending) (applications d))))"
proof -
  have k: "(\<lambda>r. application_date (fst (fst r))) = (\<lambda>r. row_application_date (select_row r))"
    by (auto simp: select_row_def fun_eq_iff)
  show ?thesis
    unfolding pending_rows_def k sort_key_map pending_join ..
qed

text \<open>With keys that identify their rows, an application whose user and scheme exist
  contributes the one row that carries their names.\<close>

lemma rows_of_matched:
  assumes "filter (\<lambda>u. sql_ref_eq e (app_user_id a) (user_id u)) (users d) = [u]"
    and "filter (\<lambda>s. sql_ref_eq e (app_scheme_id a) (scheme_id s)) (schemes d) = [s]"
  shows "rows_of e d a =
           [PendingRow (app_id a) (application_date a) (app_status a)
              (Some (name u)) (Some (email u)) (Some (scheme_name s))]"
  by (simp add: rows_of_def assms or_null_row_def select_row_def)

text \<open>The Pending rows of the view are the rows of the Pending applications, still
  oldest first.\<close>

lemma pending_of_view:
  "filter (\<lambda>r. row_status r = Pending) (v_admin_applications e d) =
     sort_key row_application_date
       (concat (map (rows_of e d) (filter (\<lambda>a. app_status a = Pending) (applications d))))"
proof -
  have fl: "filter (\<lambda>r. row_status r = Pending) (rows_of e d a) =
            (if app_status a = Pending then rows_of e d a else [])" for a
    using rows_of_status[of _ e d a] by (auto simp: filter_empty_conv intro: filter_True)
  have "filter (\<lambda>r. row_status r = Pending) (concat (map (rows_of e d) apps)) =
        concat (map (rows_of e d) (filter (\<lambda>a. app_status a = Pending) apps))" for apps
    by (induction apps) (simp_all add: fl)
  then show ?thesis
    by (simp add: v_admin_applications_def filter_sort)
qed

text \<open>C7. Over the view \<^verbatim>\<open>v_admin_applications\<close> as the specification describes it,
  and when the store answers, the admin pending list of \<^verbatim>\<open>src/server.js\<close> is the rows of
  the applications whose status is Pending: every such application is among them and
  no row comes from any other, each row carries the application's id, date and status
  with the name and email of the user and the name of the scheme its references match,
  and the rows are in ascending order of application_date. The direct-JOIN handler of
  the repository's other \<^verbatim>\<open>server.js\<close> returns the same list.\<close>

theorem pending_list_oldest_first:
  assumes "\<not> rejects e SelectPending"
  shows "\<exists>rows.
           api_pending e (v_admin_applications e d) = Response 200 (Applications rows)
         \<and> sorted (map row_application_date rows)
         \<and> (\<forall>r \<in> set rows. row_status r = Pending)
         \<and> (\<forall>a \<in> set (applications d). app_status a = Pending \<longrightarrow>
               (\<exists>r \<in> set rows. row_id r = app_id a \<and>
                  row_application_date r = application_date a))
         \<and> (\<forall>r \<in> set rows. \<exists>a \<in> set (applications d). app_status a = Pending \<and>
               r \<in> set (rows_of e d a))
         \<and> (\<forall>a u s. a \<in> set (applications d) \<and> app_status a = Pending \<and>
                filter (\<lambda>u. sql_ref_eq e (app_user_id a) (user_id u)) (users d) = [u] \<and>
                filter (\<lambda>s. sql_ref_eq e (app_scheme_id a) (scheme_id s)) (schemes d) = [s] \<longrightarrow>
               PendingRow (app_id a) (application_date a) Pending
                 (Some (name u)) (Some (email u)) (Some (scheme_name s)) \<in> set rows)
         \<and> mset rows =
             mset (concat (map (rows_of e d)
                     (filter (\<lambda>a. app_status a = Pending) (applications d))))
         \<and> api_pending_corrected e d = Response 200 (Applications rows)"
proof -
  let ?pend = "filter (\<lambda>a. app_status a = Pending) (applications d)"
  let ?rows = "sort_key row_application_date (concat (map (rows_of e d) ?pend))"
  have view: "api_pending e (v_admin_applications e d) = Response 200 (Applications ?rows)"
    using assms by (simp add: api_pending_def pending_of_view)
  have corrected: "api_pending_corrected e d = Response 200 (Applications ?rows)"
    using assms by (simp add: api_pending_corrected_def pending_rows_eq)
  have sorted: "sorted (map row_application_date ?rows)"
    by (rule sorted_sort_key)
  have only: "\<exists>a \<in> set (applications d). app_status a = Pending \<and> r \<in> set (rows_of e d a)"
    if "r \<in> set ?rows" for r
    using that by auto
  have st: "row_status r = Pending" if "r \<in> set ?rows" for r
    using only[OF that] rows_of_status by fastforce
  have every: "\<exists>r \<in> set ?rows. row_id r = app_id a \<and>
                row_application_date r = application_date a"
    if "a \<in> set (applications d)" "app_status a = Pending" for a
  proof -
    from rows_of_nonempty[of e d a] obtain r where r: "r \<in> set (rows_of e d a)"
      by (cases "rows_of e d a") auto
    with that have "r \<in> set ?rows" by auto
    with rows_of_id[OF r] show ?thesis by blast
  qed
  have matched: "PendingRow (app_id a) (application_date a) Pending
                 (Some (name u)) (Some (email u)) (Some (scheme_name s)) \<in> set ?rows"
    if "a \<in> set (applications d)" "app_status a = Pending"
      "filter (\<lambda>u. sql_ref_eq e (app_user_id a) (user_id u)) (users d) = [u]"
      "filter (\<lambda>s. sql_ref_eq e (app_scheme_id a) (scheme_id s)) (schemes d) = [s]" for a u s
  proof -
    from rows_of_matched[OF that(3,4)] that(2)
    have "PendingRow (app_id a) (application_date a) Pending
            (Some (name u)) (Some (email u)) (Some (scheme_name s)) \<in> set (rows_of e d a)"
      by simp
    with that(1,2) show ?thesis by auto
  qed
  have ms: "mset ?rows = mset (concat (map (rows_of e d) ?pend))"
    by simp
  show ?thesis
  proof (intro exI[of _ ?rows] conjI)
    show "api_pending e (v_admin_applications e d) = Response 200 (Applications ?rows)"
      by (rule view)
    show "sorted (map row_application_date ?rows)" by (rule sorted)
    show "\<forall>r \<in> set ?rows. row_status r = Pending" using st by blast
    show "\<forall>a \<in> set (applications d). app_status a = Pending \<longrightarrow>
               (\<exists>r \<in> set ?rows. row_id r = app_id a \<and>
                  row_application_date r = application_date a)"
      using every by blast
    show "\<forall>r \<in> set ?rows. \<exists>a \<in> set (applications d). app_status a = Pending \<and>
               r \<in> set (rows_of e d a)"
      using only by blast
    show "\<forall>a u s. a \<in> set (applications d) \<and> app_status a = Pending \<and>
                filter (\<lambda>u. sql_ref_eq e (app_user_id a) (user_id u)) (users d) = [u] \<and>
                filter (\<lambda>s. sql_ref_eq e (app_scheme_id a) (scheme_id s)) (schemes d) = [s] \<longrightarrow>
               PendingRow (app_id a) (application_date a) Pending
                 (Some (name u)) (Some (email u)) (Some (scheme_name s)) \<in> set ?rows"
      using matched by blast
    show "mset ?rows = mset (concat (map (rows_of e d) ?pend))" by (rule ms)
    show "api_pending_corrected e d = Response 200 (Applications ?rows)" by (rule corrected)
  qed
qed

subsection \<open>The pending list on concrete tables\<close>

lemma demo_db_pending:
  "filter (\<lambda>a. app_status a = Pending) (applications demo_db) = [newer, older]"
  by (simp add: demo_db_def newer_def older_def decided_def)

lemma demo_rows_older:
  "rows_of (demo_env no_faults) demo_db older =
     [PendingRow 1 10 Pending (Some ''Asha'') (Some ''asha@example.org'') (Some ''Means Grant'')]"
  by (simp add: rows_of_def or_null_row_def select_row_def demo_env_def demo_db_def older_def
        asha_def merit_def means_def)

lemma demo_rows_newer:
  "rows_of (demo_env no_faults) demo_db newer = [PendingRow 2 20 Pending None None (Some ''Merit Award'')]"
  by (simp add: rows_of_def or_null_row_def select_row_def demo_env_def demo_db_def newer_def
        asha_def merit_def means_def)

text \<open>Witness of C7: of three applications the decided one is left out, and the older
  pending one comes first; the newer one refers to a user that does not exist.\<close>

theorem pending_list_oldest_first_witness:
  "api_pending (demo_env no_faults) (v_admin_applications (demo_env no_faults) demo_db) =
     Response 200 (Applications
       [PendingRow 1 10 Pending (Some ''Asha'') (Some ''asha@example.org'') (Some ''Means Grant''),
        PendingRow 2 20 Pending None None (Some ''Merit Award'')])
   \<and> api_pending_corrected (demo_env no_faults) demo_db =
     Response 200 (Applications
       [PendingRow 1 10 Pending (Some ''Asha'') (Some ''asha@example.org'') (Some ''Means Grant''),
        PendingRow 2 20 Pending None None (Some ''Merit Award'')])"
proof -
  have ok: "\<not> rejects (demo_env no_faults) SelectPending"
    by (simp add: demo_env_def no_faults_def)
  from pending_list_oldest_first[OF ok, of demo_db] obtain rows where
    v: "api_pending (demo_env no_faults) (v_admin_applications (demo_env no_faults) demo_db) =
          Response 200 (Applications rows)"
    and c: "api_pending_corrected (demo_env no_faults) demo_db = Response 200 (Applications rows)"
    by blast
  have "api_pending_corrected (demo_env no_faults) demo_db =
          Response 200 (Applications
            [PendingRow 1 10 Pending (Some ''Asha'') (Some ''asha@example.org'') (Some ''Means Grant''),
             PendingRow 2 20 Pending None None (Some ''Merit Award'')])"
    using ok by (simp add: api_pending_corrected_def pending_rows_eq demo_db_pending
          demo_rows_older demo_rows_newer)
  with v c show ?thesis by simp
qed

end
